theory Spec2Isabelle
  imports Complex_Main "HOL-Library.AList" "HOL-Library.Sublist"
begin

section \<open>Machine integers of the Kotlin module\<close>

text \<open>
  Kotlin \<open>Int\<close> is a 32-bit and \<open>Long\<close> a 64-bit two's complement integer. Both are
  modelled as \<open>int\<close>; the wrap-around is written out where the source computes a sum,
  difference or product that could leave the range for values of the declared type.
\<close>

definition Int_MAX :: int where
  "Int_MAX = 2147483647"

definition Long_MAX :: int where
  "Long_MAX = 9223372036854775807"

definition Long_MIN :: int where
  "Long_MIN = - 9223372036854775808"

definition i32 :: "int \<Rightarrow> int" where
  "i32 x = (x + 2147483648) mod 4294967296 - 2147483648"

definition i64 :: "int \<Rightarrow> int" where
  "i64 x = (x + 9223372036854775808) mod 18446744073709551616 - 9223372036854775808"

text \<open>Kotlin's \<open>/\<close> on integers truncates towards zero.\<close>

definition kdiv :: "int \<Rightarrow> int \<Rightarrow> int" where
  "kdiv a b = sgn a * sgn b * (\<bar>a\<bar> div \<bar>b\<bar>)"

text \<open>
  \<open>coerceIn(minimumValue, maximumValue)\<close> throws \<open>IllegalArgumentException\<close> when the
  range is empty; \<open>None\<close> is that exception.
\<close>

definition coerceIn :: "int \<Rightarrow> int \<Rightarrow> int \<Rightarrow> int option" where
  "coerceIn v lo hi =
     (if lo > hi then None
      else if v < lo then Some lo
      else if v > hi then Some hi
      else Some v)"

section \<open>Strings\<close>

text \<open>
  A \<open>string\<close> is a list of 8-bit characters, read as Latin-1 code points: the header
  lines and paths handled here are of that kind.
\<close>

definition isWhitespace :: "char \<Rightarrow> bool" where
  "isWhitespace c =
     (let n = (of_char c :: nat)
      in (9 \<le> n \<and> n \<le> 13) \<or> (28 \<le> n \<and> n \<le> 32) \<or> n = 160)"

definition isBlank :: "string \<Rightarrow> bool" where
  "isBlank s = list_all isWhitespace s"

definition trim :: "string \<Rightarrow> string" where
  "trim s = rev (dropWhile isWhitespace (rev (dropWhile isWhitespace s)))"

definition startsWith :: "string \<Rightarrow> string \<Rightarrow> bool" where
  "startsWith s p = (take (length p) s = p)"

definition endsWith :: "string \<Rightarrow> string \<Rightarrow> bool" where
  "endsWith s p = (length p \<le> length s \<and> drop (length s - length p) s = p)"

definition removePrefix :: "string \<Rightarrow> string \<Rightarrow> string" where
  "removePrefix s p = (if startsWith s p then drop (length p) s else s)"

definition substringBefore :: "string \<Rightarrow> char \<Rightarrow> string" where
  "substringBefore s d = takeWhile (\<lambda>c. c \<noteq> d) s"

text \<open>
  \<open>split("-", limit = 2)\<close>: the text before the first hyphen and everything after
  it, or the whole text alone when it has no hyphen.
\<close>

definition split2 :: "string \<Rightarrow> string list" where
  "split2 s =
     (let a = takeWhile (\<lambda>c. c \<noteq> CHR ''-'') s;
          r = dropWhile (\<lambda>c. c \<noteq> CHR ''-'') s
      in case r of [] \<Rightarrow> [a] | _ # b \<Rightarrow> [a, b])"

definition lowerChar :: "char \<Rightarrow> char" where
  "lowerChar c =
     (let n = (of_char c :: nat)
      in if (65 \<le> n \<and> n \<le> 90) \<or> (192 \<le> n \<and> n \<le> 214) \<or> (216 \<le> n \<and> n \<le> 222)
         then char_of (n + 32) else c)"

definition lowercase :: "string \<Rightarrow> string" where
  "lowercase s = map lowerChar s"

subsection \<open>Decimal numerals\<close>

definition digitOf :: "char \<Rightarrow> nat option" where
  "digitOf c =
     (let n = (of_char c :: nat)
      in if 48 \<le> n \<and> n \<le> 57 then Some (n - 48) else None)"

fun parseDigits :: "nat \<Rightarrow> string \<Rightarrow> nat option" where
  "parseDigits acc [] = Some acc"
| "parseDigits acc (c # cs) =
     (case digitOf c of
        None \<Rightarrow> None
      | Some d \<Rightarrow> parseDigits (acc * 10 + d) cs)"

text \<open>
  \<open>String.toLongOrNull()\<close> of the Kotlin library: an optional sign, then at least
  one decimal digit; \<open>null\<close> for anything else and for a value outside \<open>Long\<close>.
\<close>

definition toLongOrNull :: "string \<Rightarrow> int option" where
  "toLongOrNull s =
     (case s of
        [] \<Rightarrow> None
      | c # cs \<Rightarrow>
          if (of_char c :: nat) < 48 then
            (if cs = [] then None
             else if c = CHR ''-'' then
               (case parseDigits 0 cs of
                  None \<Rightarrow> None
                | Some n \<Rightarrow> if - int n < Long_MIN then None else Some (- int n))
             else if c = CHR ''+'' then
               (case parseDigits 0 cs of
                  None \<Rightarrow> None
                | Some n \<Rightarrow> if int n > Long_MAX then None else Some (int n))
             else None)
          else
            (case parseDigits 0 s of
               None \<Rightarrow> None
             | Some n \<Rightarrow> if int n > Long_MAX then None else Some (int n)))"

text \<open>\<open>Long.toString()\<close>, as the string templates of the source render a number.\<close>

definition digitChar :: "nat \<Rightarrow> char" where
  "digitChar d = ''0123456789'' ! d"

fun digitsOf :: "nat \<Rightarrow> string" where
  "digitsOf n =
     (if n < 10 then [digitChar n]
      else digitsOf (n div 10) @ [digitChar (n mod 10)])"

declare digitsOf.simps [simp del]

definition toString :: "int \<Rightarrow> string" where
  "toString i = (if i < 0 then CHR ''-'' # digitsOf (nat (- i)) else digitsOf (nat i))"

section \<open>The range header\<close>

text \<open>
  \<open>parseRangeHeader\<close>. The guard \<open>fileSize <= 0\<close> comes first, so the differences
  \<open>fileSize - suffixLength\<close> and \<open>fileSize - 1\<close> stay inside \<open>Long\<close>.
\<close>

definition parseRangeHeader :: "string option \<Rightarrow> int \<Rightarrow> (int \<times> int) option" where
  "parseRangeHeader rangeHeader fileSize =
     (case rangeHeader of
        None \<Rightarrow> None
      | Some h \<Rightarrow>
          if isBlank h \<or> \<not> startsWith h ''bytes='' \<or> fileSize \<le> 0 then None
          else
            (let range = trim (removePrefix h ''bytes='');
                 parts = split2 range
             in case parts of
                  [p0, p1] \<Rightarrow>
                    (let startText = trim p0;
                         endText = trim p1;
                         se =
                           (if isBlank startText then
                              (case toLongOrNull endText of
                                 None \<Rightarrow> None
                               | Some suffixLength \<Rightarrow>
                                   if suffixLength \<le> 0 then None
                                   else Some (max 0 (fileSize - suffixLength), fileSize - 1))
                            else if isBlank endText then
                              (case toLongOrNull startText of
                                 None \<Rightarrow> None
                               | Some start \<Rightarrow> Some (start, fileSize - 1))
                            else
                              (case toLongOrNull startText of
                                 None \<Rightarrow> None
                               | Some start \<Rightarrow>
                                   (case toLongOrNull endText of
                                      None \<Rightarrow> None
                                    | Some end \<Rightarrow> Some (start, end))))
                     in case se of
                          None \<Rightarrow> None
                        | Some (start, end) \<Rightarrow>
                            if start < 0 \<or> start \<ge> fileSize then None
                            else if end < start then None
                            else Some (start, min end (fileSize - 1)))
                | _ \<Rightarrow> None))"

section \<open>Streams and the registry\<close>

record StreamingTuning =
  streamingWindowPieces :: int
  prefetchWindowPieces :: int
  prefetchAdvanceStep :: int
  pieceDeadlineStepMs :: int
  boostNearPieces :: int
  boostMidPieces :: int

text \<open>
  \<open>ActiveTorrentStream\<close>. A torrent handle is a number; files and directories are
  their paths. The two cursors are the mutable fields.
\<close>

record ActiveTorrentStream =
  streamId :: string
  infoHash :: string
  saveDir :: string
  handle :: nat
  fileIndex :: int
  fileName :: string
  filePath :: string
  fileSize :: int
  fileOffset :: int
  pieceLength :: int
  totalPieces :: int
  fileStartPiece :: int
  fileEndPiece :: int
  streamingWindowPieces :: int
  prefetchWindowPieces :: int
  prefetchAdvanceStep :: int
  pieceDeadlineStepMs :: int
  boostNearPieces :: int
  boostMidPieces :: int
  nextPrefetchPiece :: int
  lastBoostedPiece :: int

section \<open>The HTTP bridge\<close>

datatype Method = GET | HEAD | POST | PUT | DELETE | OPTIONS

datatype Status =
  OK | PARTIAL_CONTENT | NOT_FOUND | METHOD_NOT_ALLOWED | RANGE_NOT_SATISFIABLE | INTERNAL_ERROR


text \<open>
  A response body is a fixed text, or a \<open>TorrentInputStream\<close> over a stream, given by
  the stream's id, the start offset in the file and the number of bytes to deliver.
\<close>

datatype Body = Text string | TorrentInputStream string int int

record Response =
  status :: Status
  mimeType :: string
  body :: Body
  header :: "(string \<times> string) list"

record IHTTPSession =
  "method" :: Method
  uri :: string
  headers :: "(string \<times> string) list"

definition newFixedLengthResponse :: "Status \<Rightarrow> string \<Rightarrow> Body \<Rightarrow> Response" where
  "newFixedLengthResponse st mt b = \<lparr>status = st, mimeType = mt, body = b, header = []\<rparr>"

definition addHeader :: "string \<Rightarrow> string \<Rightarrow> Response \<Rightarrow> Response" where
  "addHeader k v r = r\<lparr>header := AList.update k v (header r)\<rparr>"

definition guessMimeType :: "string \<Rightarrow> string" where
  "guessMimeType path =
     (let lower = lowercase path
      in if endsWith lower ''.mkv'' then ''video/x-matroska''
         else if endsWith lower ''.mp4'' \<or> endsWith lower ''.m4v'' then ''video/mp4''
         else if endsWith lower ''.webm'' then ''video/webm''
         else if endsWith lower ''.avi'' then ''video/x-msvideo''
         else if endsWith lower ''.mov'' then ''video/quicktime''
         else if endsWith lower ''.ts'' \<or> endsWith lower ''.m2ts'' then ''video/mp2t''
         else if endsWith lower ''.mpg'' \<or> endsWith lower ''.mpeg'' then ''video/mpeg''
         else ''application/octet-stream'')"

text \<open>
  \<open>serveTorrentRequest\<close>, over the registry \<open>activeStreams\<close>. The difference
  \<open>fileSize - 1\<close> is taken in \<open>Long\<close>; \<open>end - start + 1\<close> is reached only with
  \<open>0 \<le> start \<le> end\<close> and cannot overflow there.
\<close>

definition serveTorrentRequest ::
  "(string \<times> ActiveTorrentStream) list \<Rightarrow> IHTTPSession \<Rightarrow> Response" where
  "serveTorrentRequest activeStreams session =
     (if method session \<noteq> GET \<and> method session \<noteq> HEAD then
        newFixedLengthResponse METHOD_NOT_ALLOWED ''text/plain'' (Text ''Method not allowed'')
      else
        (let sid = substringBefore (removePrefix (uri session) ''/torrent/'') CHR ''/''
         in case map_of activeStreams sid of
              None \<Rightarrow> newFixedLengthResponse NOT_FOUND ''text/plain'' (Text ''Stream not found'')
            | Some stream \<Rightarrow>
                (let rangeHeader = map_of (headers session) ''range'';
                     parsedRange = parseRangeHeader rangeHeader (fileSize stream);
                     start = (case parsedRange of Some (a, b) \<Rightarrow> a | None \<Rightarrow> 0);
                     end = (case parsedRange of Some (a, b) \<Rightarrow> b
                            | None \<Rightarrow> i64 (fileSize stream - 1))
                 in if start < 0 \<or> end < start \<or> start \<ge> fileSize stream then
                      addHeader ''Content-Range'' (''bytes */'' @ toString (fileSize stream))
                        (addHeader ''Accept-Ranges'' ''bytes''
                          (newFixedLengthResponse RANGE_NOT_SATISFIABLE ''text/plain''
                            (Text ''Requested range not satisfiable'')))
                    else
                      (let len = end - start + 1;
                           st = (if parsedRange \<noteq> None then PARTIAL_CONTENT else OK);
                           mt = guessMimeType (fileName stream);
                           response =
                             (if method session = HEAD then newFixedLengthResponse st mt (Text [])
                              else newFixedLengthResponse st mt
                                     (TorrentInputStream (streamId stream) start len));
                           r1 = addHeader ''Accept-Ranges'' ''bytes'' response;
                           r2 = addHeader ''Content-Length'' (toString len) r1;
                           r3 = addHeader ''Connection'' ''keep-alive'' r2
                       in if parsedRange \<noteq> None then
                            addHeader ''Content-Range''
                              (''bytes '' @ toString start @ ''-'' @ toString end @ ''/''
                                 @ toString (fileSize stream)) r3
                          else r3))))"

text \<open>
  \<open>TorrentHttpServer.serve\<close>. Nothing in \<open>serveTorrentRequest\<close> throws before the
  response exists (the input stream does its reads later), so the \<open>catch\<close> branch with
  status 500 has no path here.
\<close>

definition serve :: "(string \<times> ActiveTorrentStream) list \<Rightarrow> IHTTPSession \<Rightarrow> Response" where
  "serve activeStreams session =
     (if \<not> startsWith (uri session) ''/torrent/'' then
        newFixedLengthResponse NOT_FOUND ''text/plain'' (Text ''Not found'')
      else serveTorrentRequest activeStreams session)"

text \<open>A request line \<open>Range: bytes=start-end\<close>, as a client writes it.\<close>

definition rangeRequest :: "Method \<Rightarrow> string \<Rightarrow> int \<Rightarrow> int \<Rightarrow> IHTTPSession" where
  "rangeRequest m sid start end =
     \<lparr>method = m, uri = ''/torrent/'' @ sid,
      headers = [(''range'', ''bytes='' @ toString start @ ''-'' @ toString end)]\<rparr>"

text \<open>A stream of ten pieces of a hundred bytes, with the tuning of the 20 Mbps band.\<close>

definition sampleStream :: ActiveTorrentStream where
  "sampleStream =
     \<lparr>streamId = ''s1'', infoHash = ''abc'', saveDir = ''/cache/torrent-stream/abc'',
      handle = 1, fileIndex = 0, fileName = ''movie.mkv'',
      filePath = ''/cache/torrent-stream/abc/movie.mkv'',
      fileSize = 1000, fileOffset = 0, pieceLength = 100, totalPieces = 10,
      fileStartPiece = 0, fileEndPiece = 9,
      streamingWindowPieces = 112, prefetchWindowPieces = 256, prefetchAdvanceStep = 24,
      pieceDeadlineStepMs = 120, boostNearPieces = 24, boostMidPieces = 48,
      nextPrefetchPiece = 0, lastBoostedPiece = - 1\<rparr>"

definition isDigit :: "char \<Rightarrow> bool" where
  "isDigit c = (48 \<le> (of_char c :: nat) \<and> (of_char c :: nat) \<le> 57)"

section \<open>The torrent engine, as a stream observes it\<close>

text \<open>
  What the calls on a stream's \<open>TorrentHandle\<close> answer during one operation:
  \<open>isValid\<close>; \<open>havePiece\<close>, where \<open>None\<close> is a throw; and whether
  \<open>piecePriority\<close> or \<open>setPieceDeadline\<close> throws at a piece.
\<close>

record Engine =
  isValid :: bool
  havePiece :: "int \<Rightarrow> bool option"
  piecePriorityThrows :: "int \<Rightarrow> bool"
  setPieceDeadlineThrows :: "int \<Rightarrow> bool"

datatype Priority = IGNORE | FOUR | SIX | SEVEN

text \<open>The calls a boost makes on the handle, in order.\<close>

datatype EngineCall = PiecePriority int Priority | SetPieceDeadline int int

definition STREAMING_BOOST_MIN_STEP :: int where
  "STREAMING_BOOST_MIN_STEP = 8"

text \<open>
  The \<open>when\<close> that picks a piece's priority, and the body of the loop of
  \<open>boostPieceWindow\<close> over the pieces still to visit; a throw of either call leaves
  the loop.
\<close>

definition priorityFor :: "ActiveTorrentStream \<Rightarrow> int \<Rightarrow> Priority" where
  "priorityFor stream pieceOffset =
     (if pieceOffset < boostNearPieces stream then SEVEN
      else if pieceOffset < boostMidPieces stream then SIX
      else FOUR)"

fun boostPieces :: "Engine \<Rightarrow> ActiveTorrentStream \<Rightarrow> int \<Rightarrow> int list \<Rightarrow> EngineCall list" where
  "boostPieces eng stream startPiece [] = []"
| "boostPieces eng stream startPiece (piece # rest) =
     (let pieceOffset = i32 (piece - startPiece);
          priority = priorityFor stream pieceOffset
      in if piecePriorityThrows eng piece then []
         else PiecePriority piece priority #
           (if setPieceDeadlineThrows eng piece then []
            else SetPieceDeadline piece (i32 (pieceOffset * pieceDeadlineStepMs stream)) #
                 boostPieces eng stream startPiece rest))"

text \<open>
  \<open>boostPieceWindow\<close> returns the stream with its cursor and the calls made on the
  handle; \<open>None\<close> is the exception of \<open>coerceIn\<close> on an empty piece range.
\<close>

definition boostPieceWindow ::
  "Engine \<Rightarrow> ActiveTorrentStream \<Rightarrow> int \<Rightarrow> int option \<Rightarrow>
     (ActiveTorrentStream \<times> EngineCall list) option" where
  "boostPieceWindow eng stream fromPiece windowPieces =
     (if \<not> isValid eng then Some (stream, [])
      else
        (case coerceIn fromPiece (fileStartPiece stream) (fileEndPiece stream) of
           None \<Rightarrow> None
         | Some startPiece \<Rightarrow>
             if lastBoostedPiece stream \<ge> 0
                \<and> startPiece \<le> i32 (lastBoostedPiece stream + STREAMING_BOOST_MIN_STEP)
             then Some (stream, [])
             else
               (let effectiveWindowPieces =
                      max 1 (case windowPieces of
                               None \<Rightarrow> streamingWindowPieces stream
                             | Some w \<Rightarrow> w);
                    endPiece = min (fileEndPiece stream) (i32 (startPiece + effectiveWindowPieces));
                    calls = boostPieces eng stream startPiece [startPiece..endPiece]
                in Some (stream\<lparr>lastBoostedPiece := startPiece\<rparr>, calls))))"

text \<open>
  \<open>findNextMissingPiece\<close>. The two loops are scans over the piece lists
  \<open>pivot..end\<close> and \<open>start until pivot\<close>; a scan ends with the first missing piece,
  with \<open>-1\<close> at a throw, or falls through.
\<close>

datatype Scan = Found int | Threw | Exhausted

fun scanPieces :: "Engine \<Rightarrow> int list \<Rightarrow> Scan" where
  "scanPieces eng [] = Exhausted"
| "scanPieces eng (piece # rest) =
     (case havePiece eng piece of
        None \<Rightarrow> Threw
      | Some have \<Rightarrow> if \<not> have then Found piece else scanPieces eng rest)"

definition findNextMissingPiece :: "Engine \<Rightarrow> ActiveTorrentStream \<Rightarrow> int \<Rightarrow> int option" where
  "findNextMissingPiece eng stream fromPiece =
     (if \<not> isValid eng then Some (- 1)
      else
        (let start = fileStartPiece stream;
             end = fileEndPiece stream
         in case coerceIn fromPiece start end of
              None \<Rightarrow> None
            | Some pivot \<Rightarrow>
                (case scanPieces eng [pivot..end] of
                   Found piece \<Rightarrow> Some piece
                 | Threw \<Rightarrow> Some (- 1)
                 | Exhausted \<Rightarrow>
                     (case scanPieces eng [start..pivot - 1] of
                        Found piece \<Rightarrow> Some piece
                      | Threw \<Rightarrow> Some (- 1)
                      | Exhausted \<Rightarrow> Some (- 1)))))"

text \<open>
  One pass of the body of the loop of \<open>startPrefetchLoop\<close>. \<open>stillActive\<close> is the
  test that the registry still holds this stream under its id.
\<close>

datatype PrefetchStep =
  Break
  | Thrown
  | Continue ActiveTorrentStream "EngineCall list"

definition prefetchIteration :: "bool \<Rightarrow> Engine \<Rightarrow> ActiveTorrentStream \<Rightarrow> PrefetchStep" where
  "prefetchIteration stillActive eng stream =
     (if \<not> stillActive then Break
      else if \<not> isValid eng then Break
      else
        (case coerceIn (nextPrefetchPiece stream) (fileStartPiece stream) (fileEndPiece stream) of
           None \<Rightarrow> Thrown
         | Some fromPiece \<Rightarrow>
             (case findNextMissingPiece eng stream fromPiece of
                None \<Rightarrow> Thrown
              | Some nextMissing \<Rightarrow>
                  if nextMissing < 0 then Break
                  else
                    (case boostPieceWindow eng stream nextMissing
                            (Some (prefetchWindowPieces stream)) of
                       None \<Rightarrow> Thrown
                     | Some (boosted, calls) \<Rightarrow>
                         Continue
                           (boosted\<lparr>nextPrefetchPiece :=
                              min (fileEndPiece stream)
                                (i32 (nextMissing + prefetchAdvanceStep stream))\<rparr>)
                           calls))))"

text \<open>
  The loop itself, over what each pass observes (whether the stream is still registered, and
  the engine's answers); the list ends where the executor is shut down or the sleep is
  interrupted.
\<close>

fun prefetchLoop :: "(bool \<times> Engine) list \<Rightarrow> ActiveTorrentStream \<Rightarrow> ActiveTorrentStream" where
  "prefetchLoop [] stream = stream"
| "prefetchLoop ((stillActive, eng) # rest) stream =
     (case prefetchIteration stillActive eng stream of
        Continue stream' calls \<Rightarrow> prefetchLoop rest stream'
      | _ \<Rightarrow> stream)"

text \<open>
  \<open>startPrefetchLoop\<close> hands the loop to the prefetch executor, which has one thread:
  the stream after the passes that run, over the engine's answers at each of them.
  \<open>stillActive\<close> is the loop's test that the registry holds this stream under its id.
\<close>

definition startPrefetchLoop ::
  "bool \<Rightarrow> Engine list \<Rightarrow> ActiveTorrentStream \<Rightarrow> ActiveTorrentStream" where
  "startPrefetchLoop stillActive engines stream =
     prefetchLoop (map (\<lambda>eng. (stillActive, eng)) engines) stream"

text \<open>
  \<open>waitForPiece\<close>, over the engine's answers at each poll before the timeout and at the
  final query after it. An interrupted sleep is not modelled.
\<close>

fun waitForPiecePolls ::
  "Engine list \<Rightarrow> Engine \<Rightarrow> ActiveTorrentStream \<Rightarrow> int \<Rightarrow> (bool \<times> ActiveTorrentStream) option" where
  "waitForPiecePolls [] final stream safePiece =
     Some ((case havePiece final safePiece of None \<Rightarrow> False | Some have \<Rightarrow> have), stream)"
| "waitForPiecePolls (eng # rest) final stream safePiece =
     (case havePiece eng safePiece of
        None \<Rightarrow> Some (False, stream)
      | Some have \<Rightarrow>
          if have then Some (True, stream)
          else
            (case boostPieceWindow eng stream safePiece None of
               None \<Rightarrow> None
             | Some (boosted, calls) \<Rightarrow> waitForPiecePolls rest final boosted safePiece))"

definition waitForPiece ::
  "Engine \<Rightarrow> Engine list \<Rightarrow> Engine \<Rightarrow> ActiveTorrentStream \<Rightarrow> int \<Rightarrow>
     (bool \<times> ActiveTorrentStream) option" where
  "waitForPiece first polls final stream pieceIndex =
     (if \<not> isValid first then Some (False, stream)
      else
        (case coerceIn pieceIndex (fileStartPiece stream) (fileEndPiece stream) of
           None \<Rightarrow> None
         | Some safePiece \<Rightarrow> waitForPiecePolls polls final stream safePiece))"

text \<open>
  \<open>boostPieceWindow\<close> is not synchronised, and the threads of the HTTP bridge, the
  prefetch executor and the lifecycle executor all call it on the same stream. Between
  threads a call is two steps on the shared field \<open>lastBoostedPiece\<close>: the test of the
  field, after which the call returns or boosts its window, and the assignment of the field.
  A call is \<open>Called\<close> with its arguments, has \<open>Boosted\<close> and is about to assign its
  start piece, has \<open>Returned\<close>, or \<open>Threw\<close> (the exception of \<open>coerceIn\<close>). The
  two reads of the field in the test are taken together.
\<close>

datatype BoostCall = Called int "int option" | Boosted int | Returned | Threw

definition boostStep ::
  "Engine \<Rightarrow> BoostCall \<Rightarrow> ActiveTorrentStream \<Rightarrow>
     BoostCall \<times> ActiveTorrentStream \<times> EngineCall list" where
  "boostStep eng call stream =
     (case call of
        Called fromPiece windowPieces \<Rightarrow>
          if \<not> isValid eng then (Returned, stream, [])
          else
            (case coerceIn fromPiece (fileStartPiece stream) (fileEndPiece stream) of
               None \<Rightarrow> (Threw, stream, [])
             | Some startPiece \<Rightarrow>
                 if lastBoostedPiece stream \<ge> 0
                    \<and> startPiece \<le> i32 (lastBoostedPiece stream + STREAMING_BOOST_MIN_STEP)
                 then (Returned, stream, [])
                 else
                   (let effectiveWindowPieces =
                          max 1 (case windowPieces of
                                   None \<Rightarrow> streamingWindowPieces stream
                                 | Some w \<Rightarrow> w);
                        endPiece =
                          min (fileEndPiece stream) (i32 (startPiece + effectiveWindowPieces))
                    in (Boosted startPiece, stream,
                        boostPieces eng stream startPiece [startPiece..endPiece])))
      | Boosted startPiece \<Rightarrow> (Returned, stream\<lparr>lastBoostedPiece := startPiece\<rparr>, [])
      | Returned \<Rightarrow> (Returned, stream, [])
      | Threw \<Rightarrow> (Threw, stream, []))"

text \<open>
  The calls in flight on one stream, and a schedule: the list of the threads that take a
  step, in order.
\<close>

fun interleave ::
  "Engine \<Rightarrow> nat list \<Rightarrow> BoostCall list \<Rightarrow> ActiveTorrentStream \<Rightarrow>
     BoostCall list \<times> ActiveTorrentStream" where
  "interleave eng [] calls stream = (calls, stream)"
| "interleave eng (thread # schedule) calls stream =
     (if thread < length calls then
        (case boostStep eng (calls ! thread) stream of
           (call', stream', made) \<Rightarrow> interleave eng schedule (calls[thread := call']) stream')
      else interleave eng schedule calls stream)"

text \<open>
  The order of the circular scan in the words of the specification: the pieces from the
  cursor to \<open>fileEndPiece\<close>, then those from \<open>fileStartPiece\<close> up to the cursor.
\<close>

definition scanOrder :: "ActiveTorrentStream \<Rightarrow> int \<Rightarrow> int list" where
  "scanOrder stream cursor =
     [cursor..fileEndPiece stream] @ [fileStartPiece stream..cursor - 1]"

definition isMissing :: "Engine \<Rightarrow> int \<Rightarrow> bool" where
  "isMissing eng piece = (havePiece eng piece = Some False)"

text \<open>An engine with a valid handle that holds every piece but 2 and 5.\<close>

definition sampleEngine :: Engine where
  "sampleEngine =
     \<lparr>isValid = True, havePiece = (\<lambda>p. Some (p \<noteq> 2 \<and> p \<noteq> 5)),
      piecePriorityThrows = (\<lambda>p. False), setPieceDeadlineThrows = (\<lambda>p. False)\<rparr>"

text \<open>
  The tiers in the words of the specification: the nearest \<open>boostNearPieces\<close> pieces
  the top priority, the next \<open>boostMidPieces\<close> pieces the second, the rest the third.
\<close>

definition specifiedPriority :: "ActiveTorrentStream \<Rightarrow> int \<Rightarrow> Priority" where
  "specifiedPriority stream pieceOffset =
     (if pieceOffset < boostNearPieces stream then SEVEN
      else if pieceOffset < boostNearPieces stream + boostMidPieces stream then SIX
      else FOUR)"

text \<open>The sample stream over a file of a hundred pieces.\<close>

definition longStream :: ActiveTorrentStream where
  "longStream = sampleStream\<lparr>fileSize := 10000, totalPieces := 100, fileEndPiece := 99\<rparr>"

section \<open>Throughput estimates\<close>

text \<open>
  A Kotlin \<open>Double\<close> and a JavaScript number: a finite value, an infinity or NaN. Only
  comparisons, \<open>Math.min\<close> and \<open>Math.max\<close> are applied to the estimate, and they
  are exact, so a finite value is its real number.
\<close>

datatype Double = Finite real | PosInf | NegInf | NaN

fun dle :: "Double \<Rightarrow> Double \<Rightarrow> bool" where
  "dle NaN _ = False"
| "dle _ NaN = False"
| "dle NegInf _ = True"
| "dle _ PosInf = True"
| "dle (Finite a) (Finite b) = (a \<le> b)"
| "dle PosInf _ = False"
| "dle (Finite a) NegInf = False"

definition mathMin :: "Double \<Rightarrow> Double \<Rightarrow> Double" where
  "mathMin a b = (if a = NaN \<or> b = NaN then NaN else if dle a b then a else b)"

definition mathMax :: "Double \<Rightarrow> Double \<Rightarrow> Double" where
  "mathMax a b = (if a = NaN \<or> b = NaN then NaN else if dle a b then b else a)"

text \<open>\<open>a || b\<close> on numbers: \<open>b\<close> when \<open>a\<close> is zero or NaN.\<close>

definition orElse :: "Double \<Rightarrow> Double \<Rightarrow> Double" where
  "orElse a b = (if a = NaN \<or> a = Finite 0 then b else a)"

definition DEFAULT_NETWORK_MBPS :: Double where
  "DEFAULT_NETWORK_MBPS = Finite 20"

text \<open>The double that the literal \<open>0.1\<close> denotes.\<close>

definition MIN_NETWORK_MBPS :: Double where
  "MIN_NETWORK_MBPS = Finite (3602879701896397 / 36028797018963968)"

datatype NetworkClass = VERY_SLOW | SLOW | MEDIUM | FAST | VERY_FAST | ULTRA

definition clamp :: "Double \<Rightarrow> Double \<Rightarrow> Double \<Rightarrow> Double" where
  "clamp v minValue maxValue = mathMax minValue (mathMin maxValue v)"

definition getNetworkClassForMbps :: "Double \<Rightarrow> NetworkClass" where
  "getNetworkClassForMbps networkMbps =
     (let mbps = clamp (orElse networkMbps DEFAULT_NETWORK_MBPS) MIN_NETWORK_MBPS (Finite 1000)
      in if dle mbps (Finite (3 / 2)) then VERY_SLOW
         else if dle mbps (Finite 5) then SLOW
         else if dle mbps (Finite 20) then MEDIUM
         else if dle mbps (Finite 80) then FAST
         else if dle mbps (Finite 250) then VERY_FAST
         else ULTRA)"

definition STREAMING_WINDOW_PIECES :: int where
  "STREAMING_WINDOW_PIECES = 112"

definition PREFETCH_WINDOW_PIECES :: int where
  "PREFETCH_WINDOW_PIECES = 256"

definition PREFETCH_ADVANCE_STEP :: int where
  "PREFETCH_ADVANCE_STEP = 24"

definition mkTuning :: "int \<Rightarrow> int \<Rightarrow> int \<Rightarrow> int \<Rightarrow> int \<Rightarrow> int \<Rightarrow> StreamingTuning" where
  "mkTuning sw pw pa ds bn bm =
     \<lparr>StreamingTuning.streamingWindowPieces = sw,
      StreamingTuning.prefetchWindowPieces = pw,
      StreamingTuning.prefetchAdvanceStep = pa,
      StreamingTuning.pieceDeadlineStepMs = ds,
      StreamingTuning.boostNearPieces = bn,
      StreamingTuning.boostMidPieces = bm\<rparr>"

definition deriveStreamingTuning :: "Double option \<Rightarrow> StreamingTuning" where
  "deriveStreamingTuning networkMbps =
     (let mbps =
            (case networkMbps of
               Some (Finite x) \<Rightarrow> if x > 0 then x else 20
             | _ \<Rightarrow> 20)
      in if mbps \<le> 3 / 2 then mkTuning 64 128 12 160 14 28
         else if mbps \<le> 5 then mkTuning 88 192 18 145 18 36
         else if mbps \<le> 20 then
           mkTuning STREAMING_WINDOW_PIECES PREFETCH_WINDOW_PIECES PREFETCH_ADVANCE_STEP 120 24 48
         else if mbps \<le> 80 then mkTuning 144 320 32 100 28 56
         else if mbps \<le> 250 then mkTuning 176 384 40 85 32 64
         else mkTuning 224 448 48 70 36 72)"

text \<open>
  The six bands in the words of the specification, and the profile that
  \<open>deriveStreamingTuning\<close> holds for each.
\<close>

definition specifiedBand :: "real \<Rightarrow> NetworkClass" where
  "specifiedBand mbps =
     (if mbps \<le> 3 / 2 then VERY_SLOW
      else if mbps \<le> 5 then SLOW
      else if mbps \<le> 20 then MEDIUM
      else if mbps \<le> 80 then FAST
      else if mbps \<le> 250 then VERY_FAST
      else ULTRA)"

fun profileOf :: "NetworkClass \<Rightarrow> StreamingTuning" where
  "profileOf VERY_SLOW = mkTuning 64 128 12 160 14 28"
| "profileOf SLOW = mkTuning 88 192 18 145 18 36"
| "profileOf MEDIUM = mkTuning 112 256 24 120 24 48"
| "profileOf FAST = mkTuning 144 320 32 100 28 56"
| "profileOf VERY_FAST = mkTuning 176 384 40 85 32 64"
| "profileOf ULTRA = mkTuning 224 448 48 70 36 72"

section \<open>The module's state\<close>

text \<open>
  The torrent session holds the handles of its torrents; \<open>removeThrows\<close> tells where
  \<open>remove\<close> throws. The disk is the list of the paths that exist.
\<close>

record Session =
  isRunning :: bool
  torrents :: "nat list"
  removeThrows :: "nat \<Rightarrow> bool"

record ModuleState =
  activeStreams :: "(string \<times> ActiveTorrentStream) list"
  sessionManager :: "Session option"
  httpServer :: "nat option"
  disk :: "string list"

datatype 'a Promise = Resolved 'a | Rejected string

definition deleteRecursively :: "string \<Rightarrow> string list \<Rightarrow> string list" where
  "deleteRecursively file paths =
     (if file \<notin> set paths then paths
      else filter (\<lambda>p. p \<noteq> file \<and> \<not> startsWith p (file @ ''/'')) paths)"

definition stopStreamLocked :: "ActiveTorrentStream \<Rightarrow> bool \<Rightarrow> ModuleState \<Rightarrow> ModuleState" where
  "stopStreamLocked stream cleanupFiles st =
     (let st1 =
            (case sessionManager st of
               None \<Rightarrow> st
             | Some sm \<Rightarrow>
                 if removeThrows sm (handle stream) then st
                 else st\<lparr>sessionManager :=
                        Some (sm\<lparr>torrents := removeAll (handle stream) (torrents sm)\<rparr>)\<rparr>)
      in if cleanupFiles then st1\<lparr>disk := deleteRecursively (saveDir stream) (disk st1)\<rparr>
         else st1)"

definition stopAllStreamsLocked :: "bool \<Rightarrow> ModuleState \<Rightarrow> ModuleState" where
  "stopAllStreamsLocked cleanupFiles st =
     (let current = map snd (activeStreams st);
          cleared = st\<lparr>activeStreams := []\<rparr>
      in foldl (\<lambda>s stream. stopStreamLocked stream cleanupFiles s) cleared current)"

text \<open>
  \<open>stopStream\<close> and \<open>stopAllStreams\<close>, as run by the executor of the lifecycle
  operations: the state after the call and what the promise receives. Nothing in the bodies
  throws here (the removal's throw is caught inside), so the rejecting branch has no path.
\<close>

definition stopStream :: "string \<Rightarrow> ModuleState \<Rightarrow> ModuleState \<times> bool Promise" where
  "stopStream sid st =
     (let stream = map_of (activeStreams st) sid;
          removed = st\<lparr>activeStreams := AList.delete sid (activeStreams st)\<rparr>
      in case stream of
           None \<Rightarrow> (removed, Resolved True)
         | Some s \<Rightarrow> (stopStreamLocked s True removed, Resolved True))"

definition stopAllStreams :: "ModuleState \<Rightarrow> ModuleState \<times> bool Promise" where
  "stopAllStreams st = (stopAllStreamsLocked True st, Resolved True)"

definition ensureSessionStartedLocked :: "ModuleState \<Rightarrow> ModuleState" where
  "ensureSessionStartedLocked st =
     (case sessionManager st of
        Some sm \<Rightarrow>
          if isRunning sm then st
          else st\<lparr>sessionManager :=
                 Some \<lparr>isRunning = True, torrents = [], removeThrows = (\<lambda>h. False)\<rparr>\<rparr>
      | None \<Rightarrow>
          st\<lparr>sessionManager :=
               Some \<lparr>isRunning = True, torrents = [], removeThrows = (\<lambda>h. False)\<rparr>\<rparr>)"

definition ensureHttpServerStartedLocked :: "nat \<Rightarrow> ModuleState \<Rightarrow> ModuleState" where
  "ensureHttpServerStartedLocked port st =
     (if httpServer st \<noteq> None then st else st\<lparr>httpServer := Some port\<rparr>)"

definition shutdownLocked :: "ModuleState \<Rightarrow> ModuleState" where
  "shutdownLocked st =
     (stopAllStreamsLocked True st)\<lparr>httpServer := None, sessionManager := None\<rparr>"

section \<open>Preparing a stream\<close>

record FileEntry =
  entryPath :: string
  entrySize :: int
  entryOffset :: int

record TorrentInfo =
  files :: "FileEntry list"
  infoPieceLength :: int
  numPieces :: int

fun contains :: "string \<Rightarrow> string \<Rightarrow> bool" where
  "contains [] sub = (sub = [])"
| "contains (c # cs) sub = (startsWith (c # cs) sub \<or> contains cs sub)"

definition isLikelyVideoFile :: "string \<Rightarrow> bool" where
  "isLikelyVideoFile p =
     (endsWith p ''.mkv'' \<or> endsWith p ''.mp4'' \<or> endsWith p ''.m4v'' \<or> endsWith p ''.avi''
      \<or> endsWith p ''.webm'' \<or> endsWith p ''.mov'' \<or> endsWith p ''.ts'' \<or> endsWith p ''.m2ts''
      \<or> endsWith p ''.mpg'' \<or> endsWith p ''.mpeg'')"

text \<open>
  The loop of \<open>selectPlayableFileIndex\<close> over the files from index \<open>i\<close>, with
  \<open>bestIndex\<close>, \<open>bestScore\<close>, \<open>fallbackLargestIndex\<close> and
  \<open>fallbackLargestSize\<close>.
\<close>

fun selectLoop :: "FileEntry list \<Rightarrow> int \<Rightarrow> int \<times> int \<times> int \<times> int \<Rightarrow> int \<times> int \<times> int \<times> int" where
  "selectLoop [] i acc = acc"
| "selectLoop (f # fs) i (bestIndex, bestScore, fallbackLargestIndex, fallbackLargestSize) =
     (let size = entrySize f;
          lowerPath = lowercase (entryPath f);
          fb = (if size > fallbackLargestSize then (i, size)
                else (fallbackLargestIndex, fallbackLargestSize))
      in if \<not> isLikelyVideoFile lowerPath then
           selectLoop fs (i + 1) (bestIndex, bestScore, fst fb, snd fb)
         else
           (let s0 = size;
                s1 = (if contains lowerPath ''/sample'' \<or> contains lowerPath ''sample.''
                      then i64 (s0 - 500000000) else s0);
                s2 = (if contains lowerPath ''trailer'' then i64 (s1 - 300000000) else s1);
                s3 = (if contains lowerPath ''extras'' then i64 (s2 - 200000000) else s2);
                score = (if contains lowerPath ''featurette'' then i64 (s3 - 200000000) else s3)
            in if score > bestScore then selectLoop fs (i + 1) (i, score, fst fb, snd fb)
               else selectLoop fs (i + 1) (bestIndex, bestScore, fst fb, snd fb)))"

definition selectPlayableFileIndex :: "TorrentInfo \<Rightarrow> int option \<Rightarrow> int" where
  "selectPlayableFileIndex torrentInfo preferredFileIndex =
     (let fs = files torrentInfo;
          totalFiles = int (length fs)
      in if totalFiles \<le> 0 then - 1
         else
           (case (case preferredFileIndex of
                    None \<Rightarrow> None
                  | Some p \<Rightarrow>
                      if 0 \<le> p \<and> p < totalFiles
                         \<and> isLikelyVideoFile (lowercase (entryPath (fs ! nat p)))
                      then Some p else None) of
              Some p \<Rightarrow> p
            | None \<Rightarrow>
                (case selectLoop fs 0 (- 1, Long_MIN, 0, Long_MIN) of
                   (bestIndex, bestScore, fallbackLargestIndex, fallbackLargestSize) \<Rightarrow>
                     if bestIndex \<ge> 0 then bestIndex else fallbackLargestIndex)))"

text \<open>
  The piece geometry of \<open>prepareStreamInternal\<close>: \<open>pieceLength\<close>,
  \<open>totalPieces\<close>, \<open>firstPiece\<close> and \<open>lastPiece\<close>. The quotients are taken in
  \<open>Long\<close> and cut to \<open>Int\<close> by \<open>toInt()\<close>. The arguments are the
  selected file's size and offset and the torrent's piece length and number of pieces.
\<close>

definition pieceGeometry :: "int \<Rightarrow> int \<Rightarrow> int \<Rightarrow> int \<Rightarrow> (int \<times> int \<times> int \<times> int) option" where
  "pieceGeometry fsize foffset rawPieceLength rawNumPieces =
     (let pieceLen = max 1 rawPieceLength;
          total = max 1 rawNumPieces
      in case coerceIn (i32 (kdiv foffset pieceLen)) 0 (total - 1) of
           None \<Rightarrow> None
         | Some firstPiece \<Rightarrow>
             (case coerceIn
                     (i32 (kdiv (i64 (i64 (foffset + max 1 fsize) - 1)) pieceLen))
                     firstPiece (total - 1) of
                None \<Rightarrow> None
              | Some lastPiece \<Rightarrow> Some (pieceLen, total, firstPiece, lastPiece)))"

text \<open>
  What the world answers during one \<open>prepareStreamInternal\<close>: the info hash parsed from
  the magnet link (\<open>None\<close> where the parser throws), the handle and the metadata the two
  waits end with, the fresh stream id, the cache directory, the port a new server binds,
  and the engine's answers to the first boost, to the passes of the prefetch loop that run
  before the first wait, and to the polls of the first wait.
\<close>

record PrepareEnv =
  parsedInfoHash :: "string option"
  waitedHandle :: "nat option"
  waitedMetadata :: "TorrentInfo option"
  randomUUID :: string
  cacheDir :: string
  freePort :: nat
  boostEngine :: Engine
  prefetchEngines :: "Engine list"
  pollEngines :: "Engine list"
  finalEngine :: Engine

record PrepareResult =
  resultStreamId :: string
  playbackUrl :: string
  resultInfoHash :: string
  resultFileName :: string
  resultFileSize :: int
  resultMimeType :: string

datatype Throwable =
  IllegalStateException string
  | IllegalArgumentException
  | MagnetParseException
  | ArithmeticException
  | EOFException
  | IOException

definition mkdirs :: "string \<Rightarrow> string list \<Rightarrow> string list" where
  "mkdirs dir paths = (if dir \<in> set paths then paths else paths @ [dir])"

definition register :: "ActiveTorrentStream \<Rightarrow> ModuleState \<Rightarrow> ModuleState" where
  "register stream st =
     st\<lparr>activeStreams := AList.update (streamId stream) stream (activeStreams st)\<rparr>"

text \<open>
  The first synchronized block of \<open>prepareStreamInternal\<close>, and the rest of the function
  from the state it leaves. The stream object is shared with the registry, so the cursor a
  boost moves is stored back under the stream's id.
\<close>

definition prepareLocked :: "PrepareEnv \<Rightarrow> ModuleState \<Rightarrow> ModuleState" where
  "prepareLocked env st =
     stopAllStreamsLocked True
       (ensureHttpServerStartedLocked (freePort env) (ensureSessionStartedLocked st))"

definition newStream ::
  "PrepareEnv \<Rightarrow> string \<Rightarrow> string \<Rightarrow> nat \<Rightarrow> int \<Rightarrow> FileEntry \<Rightarrow> StreamingTuning \<Rightarrow>
     int \<times> int \<times> int \<times> int \<Rightarrow> ActiveTorrentStream" where
  "newStream env infoHashHex dir h selectedFileIndex f tuning geometry =
     (case geometry of
        (pl, tp, firstPiece, lastPiece) \<Rightarrow>
          \<lparr>streamId = randomUUID env,
           infoHash = infoHashHex,
           saveDir = dir,
           handle = h,
           fileIndex = selectedFileIndex,
           fileName = (if isBlank (entryPath f) then ''stream.bin'' else entryPath f),
           filePath = dir @ ''/'' @ entryPath f,
           fileSize = entrySize f,
           fileOffset = entryOffset f,
           pieceLength = pl,
           totalPieces = tp,
           fileStartPiece = firstPiece,
           fileEndPiece = lastPiece,
           streamingWindowPieces = StreamingTuning.streamingWindowPieces tuning,
           prefetchWindowPieces = StreamingTuning.prefetchWindowPieces tuning,
           prefetchAdvanceStep = StreamingTuning.prefetchAdvanceStep tuning,
           pieceDeadlineStepMs = StreamingTuning.pieceDeadlineStepMs tuning,
           boostNearPieces = StreamingTuning.boostNearPieces tuning,
           boostMidPieces = StreamingTuning.boostMidPieces tuning,
           nextPrefetchPiece = firstPiece,
           lastBoostedPiece = - 1\<rparr>)"

text \<open>
  From the registration of the new stream to the result: the second synchronized block, the
  first boost, the start of the prefetch loop, the first wait and the playback URL. The
  prefetch loop runs on its own thread; the passes it makes during the prepare are taken
  here before the polls of the wait, and each finds the stream registered.
\<close>

definition registerAndPrime ::
  "PrepareEnv \<Rightarrow> ActiveTorrentStream \<Rightarrow> ModuleState \<Rightarrow>
     ModuleState \<times> (Throwable + PrepareResult)" where
  "registerAndPrime env stream st =
     (let st3 = register stream st;
          firstPiece = fileStartPiece stream
      in case boostPieceWindow (boostEngine env) stream firstPiece
                (Some (prefetchWindowPieces stream)) of
           None \<Rightarrow> (st3, Inl IllegalArgumentException)
         | Some (boosted, calls) \<Rightarrow>
             (let stillActive = (map_of (activeStreams st3) (streamId stream) \<noteq> None);
                  prefetched = startPrefetchLoop stillActive (prefetchEngines env) boosted;
                  st4 = register prefetched st3
              in case waitForPiece (boostEngine env) (pollEngines env) (finalEngine env)
                        prefetched firstPiece of
                   None \<Rightarrow> (st4, Inl IllegalArgumentException)
                 | Some (ready, waited) \<Rightarrow>
                     (let st5 = register waited st4
                      in case httpServer st5 of
                           None \<Rightarrow>
                             (st5, Inl (IllegalStateException
                                          ''Torrent HTTP bridge is not running''))
                         | Some serverPort \<Rightarrow>
                             (st5, Inr
                                \<lparr>resultStreamId = streamId stream,
                                 playbackUrl =
                                   ''http://127.0.0.1:'' @ toString (int serverPort)
                                     @ ''/torrent/'' @ streamId stream,
                                 resultInfoHash = infoHash stream,
                                 resultFileName = fileName stream,
                                 resultFileSize = fileSize stream,
                                 resultMimeType = guessMimeType (fileName stream)\<rparr>))))"

text \<open>
  From the resolved metadata to the stream: the file selection, the piece geometry and the
  tuning.
\<close>

definition prepareFromMetadata ::
  "PrepareEnv \<Rightarrow> int option \<Rightarrow> Double option \<Rightarrow> string \<Rightarrow> string \<Rightarrow> nat \<Rightarrow> TorrentInfo \<Rightarrow>
     ModuleState \<Rightarrow> ModuleState \<times> (Throwable + PrepareResult)" where
  "prepareFromMetadata env preferredFileIndex networkMbps infoHashHex dir h torrentInfo st =
     (let selectedFileIndex = selectPlayableFileIndex torrentInfo preferredFileIndex
      in if selectedFileIndex < 0 then
           (st, Inl (IllegalStateException ''No playable video file found in torrent''))
         else
           (let f = files torrentInfo ! nat selectedFileIndex;
                tuning = deriveStreamingTuning networkMbps
            in case pieceGeometry (entrySize f) (entryOffset f)
                      (infoPieceLength torrentInfo) (numPieces torrentInfo) of
                 None \<Rightarrow> (st, Inl IllegalArgumentException)
               | Some geometry \<Rightarrow>
                   registerAndPrime env
                     (newStream env infoHashHex dir h selectedFileIndex f tuning geometry) st))"

definition prepareAfterStop ::
  "PrepareEnv \<Rightarrow> int option \<Rightarrow> Double option \<Rightarrow> ModuleState \<Rightarrow>
     ModuleState \<times> (Throwable + PrepareResult)" where
  "prepareAfterStop env preferredFileIndex networkMbps st =
     (case parsedInfoHash env of
        None \<Rightarrow> (st, Inl MagnetParseException)
      | Some infoHashHex \<Rightarrow>
          (let baseDir = cacheDir env @ ''/torrent-stream'';
               dir = baseDir @ ''/'' @ infoHashHex;
               st1 = st\<lparr>disk := mkdirs dir (mkdirs baseDir (disk st))\<rparr>
           in case sessionManager st1 of
                None \<Rightarrow> (st1, Inl (IllegalStateException ''Torrent session is not initialized''))
              | Some sm \<Rightarrow>
                  (case waitedHandle env of
                     None \<Rightarrow>
                       (st1, Inl (IllegalStateException
                                    ''Timed out while waiting for torrent handle''))
                   | Some h \<Rightarrow>
                       (let st2 = st1\<lparr>sessionManager :=
                                   Some (sm\<lparr>torrents := List.insert h (torrents sm)\<rparr>)\<rparr>
                        in case waitedMetadata env of
                             None \<Rightarrow>
                               (st2, Inl (IllegalStateException
                                            ''Timed out while waiting for torrent metadata''))
                           | Some torrentInfo \<Rightarrow>
                               prepareFromMetadata env preferredFileIndex networkMbps
                                 infoHashHex dir h torrentInfo st2))))"

definition prepareStreamInternal ::
  "PrepareEnv \<Rightarrow> int option \<Rightarrow> Double option \<Rightarrow> ModuleState \<Rightarrow>
     ModuleState \<times> (Throwable + PrepareResult)" where
  "prepareStreamInternal env preferredFileIndex networkMbps st =
     prepareAfterStop env preferredFileIndex networkMbps (prepareLocked env st)"

text \<open>
  \<open>prepareStream\<close>: a missing or blank magnet link is rejected before anything runs;
  a throw of \<open>prepareStreamInternal\<close> rejects the promise.
\<close>

definition prepareStream ::
  "string option \<Rightarrow> PrepareEnv \<Rightarrow> int option \<Rightarrow> Double option \<Rightarrow> ModuleState \<Rightarrow>
     ModuleState \<times> PrepareResult Promise" where
  "prepareStream magnetUri env preferredFileIndex networkMbps st =
     (if magnetUri = None \<or> isBlank (the magnetUri) then (st, Rejected ''TORRENT_INVALID_INPUT'')
      else
        (case prepareStreamInternal env preferredFileIndex networkMbps st of
           (st', Inl e) \<Rightarrow> (st', Rejected ''TORRENT_PREPARE_FAILED'')
         | (st', Inr result) \<Rightarrow> (st', Resolved result)))"

text \<open>
  The lifecycle operations, which one executor runs one after the other, and a run of
  them from a state.
\<close>

datatype Operation =
  PrepareStream "string option" PrepareEnv "int option" "Double option"
  | StopStream string
  | StopAllStreams
  | Invalidate

fun perform :: "Operation \<Rightarrow> ModuleState \<Rightarrow> ModuleState" where
  "perform (PrepareStream magnetUri env preferredFileIndex networkMbps) st =
     fst (prepareStream magnetUri env preferredFileIndex networkMbps st)"
| "perform (StopStream sid) st = fst (stopStream sid st)"
| "perform StopAllStreams st = fst (stopAllStreams st)"
| "perform Invalidate st = shutdownLocked st"

definition run :: "Operation list \<Rightarrow> ModuleState \<Rightarrow> ModuleState" where
  "run ops st = foldl (\<lambda>s operation. perform operation s) st ops"

definition initialState :: ModuleState where
  "initialState = \<lparr>activeStreams = [], sessionManager = None, httpServer = None, disk = []\<rparr>"

text \<open>
  A torrent of a text file and a video file; what the world answers to a prepare of it; and
  a state in which the sample stream is active.
\<close>

definition sampleInfo :: TorrentInfo where
  "sampleInfo =
     \<lparr>files =
        [\<lparr>entryPath = ''readme.txt'', entrySize = 150, entryOffset = 0\<rparr>,
         \<lparr>entryPath = ''Movie.MKV'', entrySize = 250, entryOffset = 150\<rparr>],
      infoPieceLength = 100, numPieces = 4\<rparr>"

definition sampleEnv :: PrepareEnv where
  "sampleEnv =
     \<lparr>parsedInfoHash = Some ''def'', waitedHandle = Some 2, waitedMetadata = Some sampleInfo,
      randomUUID = ''s2'', cacheDir = ''/cache'', freePort = 8080,
      boostEngine = sampleEngine, prefetchEngines = [sampleEngine], pollEngines = [],
      finalEngine = sampleEngine\<rparr>"

definition sampleState :: ModuleState where
  "sampleState =
     \<lparr>activeStreams = [(''s1'', sampleStream)],
      sessionManager = Some \<lparr>isRunning = True, torrents = [1], removeThrows = (\<lambda>h. False)\<rparr>,
      httpServer = Some 8080,
      disk = [''/cache/torrent-stream'', ''/cache/torrent-stream/abc'',
              ''/cache/torrent-stream/abc/movie.mkv'']\<rparr>"

text \<open>The stream that a prepare with these answers builds, before its first boost.\<close>

definition preparedStream :: ActiveTorrentStream where
  "preparedStream =
     \<lparr>streamId = ''s2'', infoHash = ''def'', saveDir = ''/cache/torrent-stream/def'',
      handle = 2, fileIndex = 1, fileName = ''Movie.MKV'',
      filePath = ''/cache/torrent-stream/def/Movie.MKV'',
      fileSize = 250, fileOffset = 150, pieceLength = 100, totalPieces = 4,
      fileStartPiece = 1, fileEndPiece = 3,
      streamingWindowPieces = 112, prefetchWindowPieces = 256, prefetchAdvanceStep = 24,
      pieceDeadlineStepMs = 120, boostNearPieces = 24, boostMidPieces = 48,
      nextPrefetchPiece = 1, lastBoostedPiece = - 1\<rparr>"

text \<open>
  Whether the session still holds a handle, and whether the session's \<open>remove\<close> throws at
  it. \<open>stopStreamLocked\<close> swallows that throw: the stream leaves the registry and its
  directory is deleted, but its torrent stays in the session.
\<close>

definition holdsHandle :: "ModuleState \<Rightarrow> nat \<Rightarrow> bool" where
  "holdsHandle st h =
     (case sessionManager st of
        None \<Rightarrow> False
      | Some sm \<Rightarrow> h \<in> set (torrents sm))"

definition removeThrowsAt :: "ModuleState \<Rightarrow> nat \<Rightarrow> bool" where
  "removeThrowsAt st h =
     (case sessionManager st of
        None \<Rightarrow> False
      | Some sm \<Rightarrow> removeThrows sm h)"

definition removedUnlessThrown :: "ModuleState \<Rightarrow> nat \<Rightarrow> bool" where
  "removedUnlessThrown st h = (removeThrowsAt st h \<or> \<not> holdsHandle st h)"

section \<open>The input stream of a response\<close>



record ReadEnv =
  waitFirst :: Engine
  waitPolls :: "Engine list"
  waitFinal :: Engine
  boostWith :: Engine
  fileExists :: bool
  rafReads :: "int list"







text \<open>
  The conditions under which a \<open>read\<close> delivers: the handle is valid, the pieces of the
  file are there when the wait first asks, the file exists, and the first attempt finds
  bytes.
\<close>

definition firstAnswer :: "ReadEnv \<Rightarrow> Engine" where
  "firstAnswer env = (case waitPolls env of [] \<Rightarrow> waitFinal env | eng # rest \<Rightarrow> eng)"

definition readable :: "ActiveTorrentStream \<Rightarrow> ReadEnv \<Rightarrow> bool" where
  "readable stream env =
     (isValid (waitFirst env)
      \<and> list_all (\<lambda>piece. havePiece (firstAnswer env) piece = Some True)
           [fileStartPiece stream..fileEndPiece stream]
      \<and> fileExists env
      \<and> (case rafReads env of [] \<Rightarrow> False | r # rest \<Rightarrow> 0 < r))"





section \<open>Decimal numerals and the range header\<close>

lemma digitOf_digitChar: "d < 10 \<Longrightarrow> digitOf (digitChar d) = Some d"
proof -
  assume "d < 10"
  then have "d \<in> {0,1,2,3,4,5,6,7,8,9}" by auto
  then show ?thesis by (auto simp: digitOf_def digitChar_def)
qed

lemma parseDigits_append:
  "parseDigits acc (xs @ ys) = (case parseDigits acc xs of None \<Rightarrow> None | Some a \<Rightarrow> parseDigits a ys)"
  by (induction xs arbitrary: acc) (auto split: option.splits)

lemma parseDigits_digitsOf: "parseDigits 0 (digitsOf n) = Some n"
proof (induction n rule: digitsOf.induct)
  case (1 n)
  show ?case
  proof (cases "n < 10")
    case True
    then show ?thesis by (subst digitsOf.simps) (simp add: digitOf_digitChar)
  next
    case False
    then have "parseDigits 0 (digitsOf (n div 10)) = Some (n div 10)" using 1 by simp
    then show ?thesis using False
      by (subst digitsOf.simps) (simp add: parseDigits_append digitOf_digitChar)
  qed
qed

lemma isDigit_digitChar: "d < 10 \<Longrightarrow> isDigit (digitChar d)"
proof -
  assume "d < 10"
  then have "d \<in> {0,1,2,3,4,5,6,7,8,9}" by auto
  then show ?thesis by (auto simp: isDigit_def digitChar_def)
qed

lemma digitsOf_isDigit: "c \<in> set (digitsOf n) \<Longrightarrow> isDigit c"
proof (induction n rule: digitsOf.induct)
  case (1 n)
  show ?case
  proof (cases "n < 10")
    case True
    then show ?thesis using 1(2) by (subst (asm) digitsOf.simps) (simp add: isDigit_digitChar)
  next
    case False
    have "c \<in> set (digitsOf (n div 10) @ [digitChar (n mod 10)])"
      using 1(2) False by (subst (asm) digitsOf.simps) simp
    then show ?thesis using 1(1) False by (auto simp: isDigit_digitChar)
  qed
qed

lemma digitsOf_nonempty: "digitsOf n \<noteq> []"
  by (subst digitsOf.simps) simp

lemma isDigit_not_ws: "isDigit c \<Longrightarrow> \<not> isWhitespace c"
  by (auto simp: isDigit_def isWhitespace_def Let_def)

lemma isDigit_not_hyphen: "isDigit c \<Longrightarrow> c \<noteq> CHR ''-''"
  by (auto simp: isDigit_def)

lemma trim_noop: "s \<noteq> [] \<Longrightarrow> \<not> isWhitespace (hd s) \<Longrightarrow> \<not> isWhitespace (last s) \<Longrightarrow> trim s = s"
proof -
  assume a: "s \<noteq> []" "\<not> isWhitespace (hd s)" "\<not> isWhitespace (last s)"
  have 1: "dropWhile isWhitespace s = s" using a by (cases s) auto
  have 2: "dropWhile isWhitespace (rev s) = rev s" using a by (cases "rev s") (auto simp: hd_rev)
  show ?thesis by (simp add: trim_def 1 2)
qed

lemma trim_digitsOf: "trim (digitsOf n) = digitsOf n"
proof (rule trim_noop)
  show "digitsOf n \<noteq> []" by (rule digitsOf_nonempty)
  show "\<not> isWhitespace (hd (digitsOf n))"
    using digitsOf_nonempty[of n] digitsOf_isDigit[of "hd (digitsOf n)" n] isDigit_not_ws by auto
  show "\<not> isWhitespace (last (digitsOf n))"
    using digitsOf_nonempty[of n] digitsOf_isDigit[of "last (digitsOf n)" n] isDigit_not_ws by auto
qed

lemma isBlank_digitsOf: "\<not> isBlank (digitsOf n)"
proof -
  obtain c cs where e: "digitsOf n = c # cs" using digitsOf_nonempty[of n] by (cases "digitsOf n") auto
  then have "isDigit c" using digitsOf_isDigit[of c n] by simp
  then show ?thesis using e by (simp add: isBlank_def isDigit_not_ws)
qed

lemma toLongOrNull_digitsOf:
  "toLongOrNull (digitsOf n) = (if int n > Long_MAX then None else Some (int n))"
proof -
  obtain c cs where e: "digitsOf n = c # cs" using digitsOf_nonempty[of n] by (cases "digitsOf n") auto
  then have "isDigit c" using digitsOf_isDigit[of c n] by simp
  then have c: "\<not> (of_char c :: nat) < 48" by (simp add: isDigit_def)
  have "parseDigits 0 (c # cs) = Some n" using parseDigits_digitsOf[of n] e by simp
  then show ?thesis using c unfolding toLongOrNull_def e by (simp del: parseDigits.simps)
qed

lemma split2_digits:
  "split2 (digitsOf a @ CHR ''-'' # t) = [digitsOf a, t]"
proof -
  have n: "\<forall>c\<in>set (digitsOf a). c \<noteq> CHR ''-''" using digitsOf_isDigit isDigit_not_hyphen by blast
  have 1: "takeWhile (\<lambda>c. c \<noteq> CHR ''-'') (digitsOf a @ CHR ''-'' # t) = digitsOf a"
    using n by (simp add: takeWhile_append2)
  have 2: "dropWhile (\<lambda>c. c \<noteq> CHR ''-'') (digitsOf a @ CHR ''-'' # t) = CHR ''-'' # t"
    using n by (simp add: dropWhile_append2)
  show ?thesis by (simp add: split2_def 1 2)
qed

lemma parseRangeHeader_start_end:
  assumes "0 \<le> a" "0 \<le> b" "0 < fs"
  shows "parseRangeHeader (Some (''bytes='' @ toString a @ ''-'' @ toString b)) fs =
           (if a > Long_MAX \<or> b > Long_MAX then None
            else if a \<ge> fs then None
            else if b < a then None
            else Some (a, min b (fs - 1)))"
proof -
  define A where "A = digitsOf (nat a)"
  define B where "B = digitsOf (nat b)"
  have ta: "toString a = A" and tb: "toString b = B" using assms by (simp_all add: toString_def A_def B_def)
  let ?r = "A @ CHR ''-'' # B"
  have ne: "?r \<noteq> []" by simp
  have hd: "\<not> isWhitespace (hd ?r)"
    using digitsOf_nonempty[of "nat a"] digitsOf_isDigit[of "hd A" "nat a"] isDigit_not_ws
    by (auto simp: A_def)
  have la: "\<not> isWhitespace (last ?r)"
    using digitsOf_nonempty[of "nat b"] digitsOf_isDigit[of "last B" "nat b"] isDigit_not_ws
    by (auto simp: B_def)
  have tr: "trim ?r = ?r" using trim_noop[OF ne hd la] .
  have sp: "split2 ?r = [A, B]" unfolding A_def by (rule split2_digits)
  have h1: "\<not> isBlank (''bytes='' @ ?r)" by (simp add: isBlank_def isWhitespace_def)
  have h2: "startsWith (''bytes='' @ ?r) ''bytes=''" by (simp add: startsWith_def)
  have h3: "removePrefix (''bytes='' @ ?r) ''bytes='' = ?r" by (simp add: removePrefix_def startsWith_def)
  have pa: "toLongOrNull (trim A) = (if a > Long_MAX then None else Some a)"
    using assms by (simp add: A_def trim_digitsOf toLongOrNull_digitsOf)
  have pb: "toLongOrNull (trim B) = (if b > Long_MAX then None else Some b)"
    using assms by (simp add: B_def trim_digitsOf toLongOrNull_digitsOf)
  have ba: "\<not> isBlank (trim A)" by (simp add: A_def trim_digitsOf isBlank_digitsOf)
  have bb: "\<not> isBlank (trim B)" by (simp add: B_def trim_digitsOf isBlank_digitsOf)
  have "parseRangeHeader (Some (''bytes='' @ ?r)) fs =
           (if a > Long_MAX \<or> b > Long_MAX then None
            else if a \<ge> fs then None
            else if b < a then None
            else Some (a, min b (fs - 1)))"
    unfolding parseRangeHeader_def option.case
    using assms h1 h2 by (simp only: h3 tr sp Let_def list.case pa pb ba bb if_False if_True simp_thms) auto
  then show ?thesis by (simp add: ta tb)
qed

section \<open>Range requests\<close>

lemma serve_rangeRequest_found:
  assumes reg: "map_of registry sid = Some stream"
    and sl: "CHR ''/'' \<notin> set sid"
  shows "serve registry (rangeRequest GET sid a b) =
    (let parsedRange = parseRangeHeader (Some (''bytes='' @ toString a @ ''-'' @ toString b)) (fileSize stream);
         start = (case parsedRange of Some (x, y) \<Rightarrow> x | None \<Rightarrow> 0);
         end = (case parsedRange of Some (x, y) \<Rightarrow> y | None \<Rightarrow> i64 (fileSize stream - 1))
     in if start < 0 \<or> end < start \<or> start \<ge> fileSize stream then
          addHeader ''Content-Range'' (''bytes */'' @ toString (fileSize stream))
            (addHeader ''Accept-Ranges'' ''bytes''
              (newFixedLengthResponse RANGE_NOT_SATISFIABLE ''text/plain''
                (Text ''Requested range not satisfiable'')))
        else
          (let len = end - start + 1;
               st = (if parsedRange \<noteq> None then PARTIAL_CONTENT else OK);
               r3 = addHeader ''Connection'' ''keep-alive''
                      (addHeader ''Content-Length'' (toString len)
                        (addHeader ''Accept-Ranges'' ''bytes''
                          (newFixedLengthResponse st (guessMimeType (fileName stream))
                            (TorrentInputStream (streamId stream) start len))))
           in if parsedRange \<noteq> None then
                addHeader ''Content-Range''
                  (''bytes '' @ toString start @ ''-'' @ toString end @ ''/''
                     @ toString (fileSize stream)) r3
              else r3))"
proof -
  have u: "startsWith (''/torrent/'' @ sid) ''/torrent/''" by (simp add: startsWith_def)
  have r: "removePrefix (''/torrent/'' @ sid) ''/torrent/'' = sid"
    by (simp add: removePrefix_def startsWith_def)
  have s: "substringBefore sid CHR ''/'' = sid"
    using sl by (auto simp: substringBefore_def takeWhile_eq_all_conv)
  have f1: "uri (rangeRequest GET sid a b) = ''/torrent/'' @ sid"
    and f2: "method (rangeRequest GET sid a b) = GET"
    and f3: "map_of (headers (rangeRequest GET sid a b)) ''range'' =
               Some (''bytes='' @ toString a @ ''-'' @ toString b)"
    by (simp_all add: rangeRequest_def)
  show ?thesis
    unfolding serve_def serveTorrentRequest_def Let_def f1 f2 f3 r s reg
    using u by simp
qed


text \<open>
  C9 (as amended). For a registered stream and a request \<open>Range: bytes=start-end\<close> with
  \<open>0 \<le> start < fileSize\<close> and \<open>fileSize \<le> end\<close>, where \<open>end\<close> is
  still a \<open>Long\<close> (\<open>end \<le> Long_MAX\<close>), the parsed end is clamped to
  \<open>fileSize - 1\<close>: the answer is 206 over the bytes \<open>start\<close> to \<open>fileSize - 1\<close>.
\<close>

theorem range_request_end_clamped:
  assumes "map_of registry sid = Some stream"
    and "CHR ''/'' \<notin> set sid"
    and "0 \<le> start" and "start < fileSize stream" and "fileSize stream \<le> end"
    and "end \<le> Long_MAX"
  shows "parseRangeHeader (Some (''bytes='' @ toString start @ ''-'' @ toString end))
           (fileSize stream) = Some (start, fileSize stream - 1)
         \<and> serve registry (rangeRequest GET sid start end) =
           \<lparr>status = PARTIAL_CONTENT,
            mimeType = guessMimeType (fileName stream),
            body = TorrentInputStream (streamId stream) start (fileSize stream - start),
            header =
              [(''Accept-Ranges'', ''bytes''),
               (''Content-Length'', toString (fileSize stream - start)),
               (''Connection'', ''keep-alive''),
               (''Content-Range'',
                  ''bytes '' @ toString start @ ''-'' @ toString (fileSize stream - 1) @ ''/''
                    @ toString (fileSize stream))]\<rparr>"
proof -
  have p: "parseRangeHeader (Some (''bytes='' @ toString start @ ''-'' @ toString end))
             (fileSize stream) = Some (start, fileSize stream - 1)"
    using assms(3-6) by (subst parseRangeHeader_start_end) auto
  have "serve registry (rangeRequest GET sid start end) =
           \<lparr>status = PARTIAL_CONTENT,
            mimeType = guessMimeType (fileName stream),
            body = TorrentInputStream (streamId stream) start (fileSize stream - start),
            header =
              [(''Accept-Ranges'', ''bytes''),
               (''Content-Length'', toString (fileSize stream - start)),
               (''Connection'', ''keep-alive''),
               (''Content-Range'',
                  ''bytes '' @ toString start @ ''-'' @ toString (fileSize stream - 1) @ ''/''
                    @ toString (fileSize stream))]\<rparr>"
    unfolding serve_rangeRequest_found [OF assms(1,2)] p Let_def
    using assms(3-5) by (simp add: addHeader_def newFixedLengthResponse_def)
  with p show ?thesis by simp
qed

theorem range_request_end_clamped_witness:
  "serve [(''s1'', sampleStream)] (rangeRequest GET ''s1'' 990 5000) =
     \<lparr>status = PARTIAL_CONTENT, mimeType = ''video/x-matroska'',
      body = TorrentInputStream ''s1'' 990 10,
      header =
        [(''Accept-Ranges'', ''bytes''), (''Content-Length'', ''10''),
         (''Connection'', ''keep-alive''), (''Content-Range'', ''bytes 990-999/1000'')]\<rparr>"
  using range_request_end_clamped [of "[(''s1'', sampleStream)]" "''s1''" sampleStream 990 5000]
  by (simp add: sampleStream_def Long_MAX_def toString_def digitsOf.simps digitChar_def
      guessMimeType_def lowercase_def lowerChar_def endsWith_def)

lemma parse_end_beyond_Long:
  "parseRangeHeader (Some (''bytes='' @ toString 0 @ ''-'' @ toString 9223372036854775808)) 1000 = None"
  by (subst parseRangeHeader_start_end) (simp_all add: Long_MAX_def)

text \<open>
  An end beyond \<open>Long\<close> does not parse: the header is dropped and the whole file is served
  with status 200, although \<open>0 \<le> start < fileSize \<le> end\<close>.
\<close>

theorem range_request_end_beyond_Long_counterexample:
  "fileSize sampleStream = 1000
   \<and> serve [(''s1'', sampleStream)] (rangeRequest GET ''s1'' 0 9223372036854775808) =
     \<lparr>status = OK, mimeType = ''video/x-matroska'',
      body = TorrentInputStream ''s1'' 0 1000,
      header =
        [(''Accept-Ranges'', ''bytes''), (''Content-Length'', ''1000''),
         (''Connection'', ''keep-alive'')]\<rparr>"
proof -
  have reg: "map_of [(''s1'', sampleStream)] ''s1'' = Some sampleStream" by simp
  have sl: "CHR ''/'' \<notin> set ''s1''" by simp
  have fs: "fileSize sampleStream = 1000" by (simp add: sampleStream_def)
  show ?thesis
    unfolding serve_rangeRequest_found [OF reg sl] fs parse_end_beyond_Long Let_def
    by (simp add: sampleStream_def toString_def digitsOf.simps digitChar_def i64_def
      addHeader_def newFixedLengthResponse_def
      guessMimeType_def lowercase_def lowerChar_def endsWith_def)
qed

lemma parse_unsatisfiable:
  "parseRangeHeader (Some (''bytes='' @ toString 1000 @ ''-'' @ toString 2000)) 1000 = None"
  "parseRangeHeader (Some (''bytes='' @ toString 50 @ ''-'' @ toString 10)) 1000 = None"
  by (subst parseRangeHeader_start_end; simp add: Long_MAX_def)+

text \<open>
  C2. The claim: a range whose start is at or past \<open>fileSize\<close>, or whose end is smaller
  than its start, is answered with 416 and \<open>Content-Range: bytes */fileSize\<close>. The code:
  \<open>parseRangeHeader\<close> returns \<open>null\<close> for both, which \<open>serveTorrentRequest\<close> reads
  as "no range", so the whole file is served with status 200; its own 416 branch is reached
  only for a file of size zero or less.
\<close>

theorem unsatisfiable_range_served_in_full:
  "serve [(''s1'', sampleStream)] (rangeRequest GET ''s1'' 1000 2000) =
     \<lparr>status = OK, mimeType = ''video/x-matroska'',
      body = TorrentInputStream ''s1'' 0 1000,
      header =
        [(''Accept-Ranges'', ''bytes''), (''Content-Length'', ''1000''),
         (''Connection'', ''keep-alive'')]\<rparr>
   \<and> serve [(''s1'', sampleStream)] (rangeRequest GET ''s1'' 50 10) =
     \<lparr>status = OK, mimeType = ''video/x-matroska'',
      body = TorrentInputStream ''s1'' 0 1000,
      header =
        [(''Accept-Ranges'', ''bytes''), (''Content-Length'', ''1000''),
         (''Connection'', ''keep-alive'')]\<rparr>"
proof -
  have reg: "map_of [(''s1'', sampleStream)] ''s1'' = Some sampleStream" by simp
  have sl: "CHR ''/'' \<notin> set ''s1''" by simp
  have fs: "fileSize sampleStream = 1000" by (simp add: sampleStream_def)
  show ?thesis
    unfolding serve_rangeRequest_found [OF reg sl] fs parse_unsatisfiable Let_def
    by (simp add: sampleStream_def toString_def digitsOf.simps digitChar_def i64_def
      addHeader_def newFixedLengthResponse_def
      guessMimeType_def lowercase_def lowerChar_def endsWith_def)
qed

section \<open>The missing-piece scan\<close>

lemma coerceIn_clamp: "lo \<le> hi \<Longrightarrow> coerceIn v lo hi = Some (max lo (min hi v))"
  by (auto simp: coerceIn_def)

lemma find_app:
  "find P (xs @ ys) = (case find P xs of None \<Rightarrow> find P ys | Some x \<Rightarrow> Some x)"
  by (induction xs) auto

lemma find_Some_mem: "find P xs = Some x \<Longrightarrow> x \<in> set xs \<and> P x"
  by (induction xs) (auto split: if_splits)

lemma scanPieces_find:
  assumes "\<forall>p\<in>set ps. havePiece eng p \<noteq> None"
  shows "scanPieces eng ps =
           (case find (isMissing eng) ps of None \<Rightarrow> Exhausted | Some p \<Rightarrow> Found p)"
  using assms by (induction ps) (auto simp: isMissing_def split: option.splits)

text \<open>
  C8 (as amended). With a valid handle whose \<open>havePiece\<close> does not throw on the file's
  pieces, \<open>findNextMissingPiece\<close> returns the first missing piece in the order
  \<open>[cursor, fileEndPiece]\<close> then \<open>[fileStartPiece, cursor)\<close>, the cursor clamped into
  the file's pieces, and returns \<open>-1\<close> exactly when every piece of the file is present.
\<close>

theorem findNextMissingPiece_wraps:
  assumes "isValid eng"
    and "\<forall>p\<in>{fileStartPiece stream..fileEndPiece stream}. havePiece eng p \<noteq> None"
    and "0 \<le> fileStartPiece stream"
    and "fileStartPiece stream \<le> fileEndPiece stream"
  shows "findNextMissingPiece eng stream cursor =
           Some (case find (isMissing eng)
                        (scanOrder stream
                           (max (fileStartPiece stream) (min (fileEndPiece stream) cursor))) of
                   None \<Rightarrow> - 1
                 | Some piece \<Rightarrow> piece)
         \<and> (findNextMissingPiece eng stream cursor = Some (- 1) \<longleftrightarrow>
              (\<forall>p\<in>{fileStartPiece stream..fileEndPiece stream}. havePiece eng p = Some True))"
proof -
  define s where "s = fileStartPiece stream"
  define e where "e = fileEndPiece stream"
  define pivot where "pivot = max s (min e cursor)"
  have se: "s \<le> e" and s0: "0 \<le> s" using assms by (simp_all add: s_def e_def)
  have pv: "s \<le> pivot" "pivot \<le> e" using se by (auto simp: pivot_def)
  have c: "coerceIn cursor s e = Some pivot" using se by (simp add: coerceIn_clamp pivot_def)
  have h1: "\<forall>p\<in>set [pivot..e]. havePiece eng p \<noteq> None"
    using assms(2) pv by (auto simp: s_def e_def)
  have h2: "\<forall>p\<in>set [s..pivot - 1]. havePiece eng p \<noteq> None"
    using assms(2) pv by (auto simp: s_def e_def)
  have f: "findNextMissingPiece eng stream cursor =
             Some (case find (isMissing eng) ([pivot..e] @ [s..pivot - 1]) of
                     None \<Rightarrow> - 1 | Some piece \<Rightarrow> piece)"
    using assms(1) c
    by (simp add: findNextMissingPiece_def s_def[symmetric] e_def[symmetric]
        scanPieces_find[OF h1] scanPieces_find[OF h2] find_app split: option.splits)
  have cover: "set ([pivot..e] @ [s..pivot - 1]) = {s..e}" using pv by auto
  have iff: "(case find (isMissing eng) ([pivot..e] @ [s..pivot - 1]) of
                None \<Rightarrow> - 1 | Some piece \<Rightarrow> piece) = - 1
             \<longleftrightarrow> (\<forall>p\<in>{s..e}. havePiece eng p = Some True)"
  proof (cases "find (isMissing eng) ([pivot..e] @ [s..pivot - 1])")
    case None
    then have "\<forall>p\<in>{s..e}. \<not> isMissing eng p"
      using cover by (auto simp: find_None_iff)
    moreover have "\<forall>p\<in>{s..e}. havePiece eng p \<noteq> None"
      using assms(2) by (simp add: s_def e_def)
    ultimately have "\<forall>p\<in>{s..e}. havePiece eng p = Some True"
      unfolding isMissing_def by (metis (full_types) option.exhaust)
    then show ?thesis using None by simp
  next
    case (Some piece)
    then have "piece \<in> set ([pivot..e] @ [s..pivot - 1])" "isMissing eng piece"
      using find_Some_mem by fastforce+
    then have "piece \<in> {s..e}" "havePiece eng piece = Some False"
      using cover by (auto simp: isMissing_def)
    then have "piece \<noteq> - 1" "\<not> (\<forall>p\<in>{s..e}. havePiece eng p = Some True)"
      using s0 by force+
    then show ?thesis using Some by simp
  qed
  show ?thesis
    using f iff by (simp add: scanOrder_def s_def e_def pivot_def)
qed

theorem findNextMissingPiece_wraps_witness:
  "findNextMissingPiece sampleEngine sampleStream 8 = Some 2
   \<and> havePiece sampleEngine 8 = Some True \<and> havePiece sampleEngine 9 = Some True
   \<and> havePiece sampleEngine 0 = Some True \<and> havePiece sampleEngine 1 = Some True
   \<and> havePiece sampleEngine 2 = Some False"
  using findNextMissingPiece_wraps [of sampleEngine sampleStream 8]
  by (simp add: sampleEngine_def sampleStream_def scanOrder_def isMissing_def upto.simps)

text \<open>
  With an invalid handle, or a \<open>havePiece\<close> that throws, the result is \<open>-1\<close> although a
  piece of the file is missing.
\<close>

theorem findNextMissingPiece_invalid_handle_counterexample:
  "findNextMissingPiece (sampleEngine\<lparr>isValid := False\<rparr>) sampleStream 0 = Some (- 1)
   \<and> havePiece (sampleEngine\<lparr>isValid := False\<rparr>) 2 = Some False
   \<and> findNextMissingPiece (sampleEngine\<lparr>havePiece := (\<lambda>p. if p = 1 then None else Some (p \<noteq> 2))\<rparr>)
        sampleStream 0 = Some (- 1)"
  by (simp add: findNextMissingPiece_def sampleEngine_def sampleStream_def coerceIn_def upto.simps)

section \<open>Boosting a window of pieces\<close>

lemma i32_id: "- 2147483648 \<le> x \<Longrightarrow> x \<le> Int_MAX \<Longrightarrow> i32 x = x"
  by (simp add: i32_def Int_MAX_def)

lemma boostPieces_no_throw:
  assumes "\<forall>p\<in>set ps. \<not> piecePriorityThrows eng p \<and> \<not> setPieceDeadlineThrows eng p"
    and "\<forall>p\<in>set ps. i32 (p - sp) = p - sp"
    and "\<forall>p\<in>set ps. i32 ((p - sp) * pieceDeadlineStepMs stream) = (p - sp) * pieceDeadlineStepMs stream"
  shows "boostPieces eng stream sp ps =
           concat (map (\<lambda>piece. [PiecePriority piece (priorityFor stream (piece - sp)),
                                  SetPieceDeadline piece ((piece - sp) * pieceDeadlineStepMs stream)]) ps)"
  using assms by (induction ps) (simp_all add: Let_def)

text \<open>
  C6 (as amended). \<open>boostPieceWindow\<close> on a valid handle whose calls do not throw: it is a
  no-op when a boost has been made before (\<open>lastBoostedPiece \<ge> 0\<close>) and the clamped
  \<open>fromPiece\<close> is at most \<open>lastBoostedPiece + 8\<close>. Otherwise (the first boost, or
  an advance of more than the step) it visits the pieces from the clamped \<open>fromPiece\<close> to
  \<open>min fileEndPiece (fromPiece + max 1 window)\<close>, gives each the priority SEVEN at an
  offset below \<open>boostNearPieces\<close>, SIX at an offset below \<open>boostMidPieces\<close> and FOUR
  beyond, and the deadline offset times \<open>pieceDeadlineStepMs\<close>, and sets
  \<open>lastBoostedPiece\<close> to the clamped \<open>fromPiece\<close>.
\<close>

theorem boostPieceWindow_tiers:
  assumes "isValid eng"
    and "\<forall>p. \<not> piecePriorityThrows eng p \<and> \<not> setPieceDeadlineThrows eng p"
    and "0 \<le> fileStartPiece stream"
    and "fileStartPiece stream \<le> fileEndPiece stream"
    and "- 1 \<le> lastBoostedPiece stream"
    and "lastBoostedPiece stream \<le> fileEndPiece stream"
    and "window = max 1 (case windowPieces of None \<Rightarrow> streamingWindowPieces stream | Some w \<Rightarrow> w)"
    and "fileEndPiece stream + max STREAMING_BOOST_MIN_STEP window \<le> Int_MAX"
    and "0 \<le> pieceDeadlineStepMs stream"
    and "window * pieceDeadlineStepMs stream \<le> Int_MAX"
    and "startPiece = max (fileStartPiece stream) (min (fileEndPiece stream) fromPiece)"
    and "endPiece = min (fileEndPiece stream) (startPiece + window)"
  shows "boostPieceWindow eng stream fromPiece windowPieces =
           (if 0 \<le> lastBoostedPiece stream
               \<and> startPiece \<le> lastBoostedPiece stream + STREAMING_BOOST_MIN_STEP
            then Some (stream, [])
            else Some (stream\<lparr>lastBoostedPiece := startPiece\<rparr>,
                       concat (map (\<lambda>piece.
                          [PiecePriority piece (priorityFor stream (piece - startPiece)),
                           SetPieceDeadline piece
                             ((piece - startPiece) * pieceDeadlineStepMs stream)])
                          [startPiece..endPiece])))"
proof -
  have c: "coerceIn fromPiece (fileStartPiece stream) (fileEndPiece stream) = Some startPiece"
    using assms(4,11) by (simp add: coerceIn_clamp)
  have sp: "fileStartPiece stream \<le> startPiece" "startPiece \<le> fileEndPiece stream"
    using assms(4,11) by auto
  have w1: "1 \<le> window" using assms(7) by simp
  have a1: "i32 (lastBoostedPiece stream + STREAMING_BOOST_MIN_STEP)
              = lastBoostedPiece stream + STREAMING_BOOST_MIN_STEP"
    using assms(5,6,8) by (intro i32_id) (auto simp: STREAMING_BOOST_MIN_STEP_def)
  have a2: "i32 (startPiece + window) = startPiece + window"
    using assms(3,8) sp w1 by (intro i32_id) auto
  have off: "\<forall>p\<in>set [startPiece..endPiece]. 0 \<le> p - startPiece \<and> p - startPiece \<le> window"
    using assms(12) by auto
  have b1: "\<forall>p\<in>set [startPiece..endPiece]. i32 (p - startPiece) = p - startPiece"
  proof
    fix p assume "p \<in> set [startPiece..endPiece]"
    then have "0 \<le> p - startPiece" "p - startPiece \<le> window" using off by auto
    moreover have "window \<le> Int_MAX" using assms(3,4,8) by auto
    ultimately show "i32 (p - startPiece) = p - startPiece" by (intro i32_id) auto
  qed
  have b2: "\<forall>p\<in>set [startPiece..endPiece].
              i32 ((p - startPiece) * pieceDeadlineStepMs stream)
                = (p - startPiece) * pieceDeadlineStepMs stream"
  proof
    fix p assume "p \<in> set [startPiece..endPiece]"
    then have o: "0 \<le> p - startPiece" "p - startPiece \<le> window" using off by auto
    then have "(p - startPiece) * pieceDeadlineStepMs stream \<le> window * pieceDeadlineStepMs stream"
      using assms(9) by (intro mult_right_mono) auto
    moreover have "0 \<le> (p - startPiece) * pieceDeadlineStepMs stream"
      using o assms(9) by simp
    ultimately show "i32 ((p - startPiece) * pieceDeadlineStepMs stream)
                       = (p - startPiece) * pieceDeadlineStepMs stream"
      using assms(10) by (intro i32_id) auto
  qed
  have nt: "\<forall>p\<in>set [startPiece..endPiece].
              \<not> piecePriorityThrows eng p \<and> \<not> setPieceDeadlineThrows eng p"
    using assms(2) by simp
  show ?thesis
    unfolding boostPieceWindow_def c option.case a1 Let_def assms(7)[symmetric] a2
      assms(12)[symmetric] boostPieces_no_throw[OF nt b1 b2]
    using assms(1) by auto
qed

theorem boostPieceWindow_tiers_witness:
  "boostPieceWindow sampleEngine (sampleStream\<lparr>boostNearPieces := 2, boostMidPieces := 4\<rparr>) 1 (Some 6) =
     Some (sampleStream\<lparr>boostNearPieces := 2, boostMidPieces := 4, lastBoostedPiece := 1\<rparr>,
           [PiecePriority 1 SEVEN, SetPieceDeadline 1 0,
            PiecePriority 2 SEVEN, SetPieceDeadline 2 120,
            PiecePriority 3 SIX, SetPieceDeadline 3 240,
            PiecePriority 4 SIX, SetPieceDeadline 4 360,
            PiecePriority 5 FOUR, SetPieceDeadline 5 480,
            PiecePriority 6 FOUR, SetPieceDeadline 6 600,
            PiecePriority 7 FOUR, SetPieceDeadline 7 720])"
  using boostPieceWindow_tiers [where eng = sampleEngine
      and stream = "sampleStream\<lparr>boostNearPieces := 2, boostMidPieces := 4\<rparr>"
      and windowPieces = "Some 6" and window = 6 and fromPiece = 1 and startPiece = 1
      and endPiece = 7]
  by (simp add: sampleEngine_def sampleStream_def Int_MAX_def STREAMING_BOOST_MIN_STEP_def
      priorityFor_def upto.simps)

text \<open>
  Where the code leaves the claim: the piece at offset \<open>boostMidPieces\<close> is within the
  "next \<open>boostMidPieces\<close> pieces" after the nearest \<open>boostNearPieces\<close>, and gets the
  third tier; the first boost is made although the piece has advanced by one only; an
  advance of exactly the step is a no-op.
\<close>

theorem boostPieceWindow_counterexample:
  "PiecePriority 48 FOUR \<in> set (snd (the (boostPieceWindow sampleEngine longStream 0 (Some 50))))
   \<and> specifiedPriority longStream 48 = SIX
   \<and> boostPieceWindow sampleEngine sampleStream 0 (Some 1) =
       Some (sampleStream\<lparr>lastBoostedPiece := 0\<rparr>,
             [PiecePriority 0 SEVEN, SetPieceDeadline 0 0,
              PiecePriority 1 SEVEN, SetPieceDeadline 1 120])
   \<and> lastBoostedPiece sampleStream = - 1
   \<and> boostPieceWindow sampleEngine (sampleStream\<lparr>lastBoostedPiece := 0\<rparr>) 8 (Some 1) =
       Some (sampleStream\<lparr>lastBoostedPiece := 0\<rparr>, [])
   \<and> 8 - lastBoostedPiece (sampleStream\<lparr>lastBoostedPiece := 0\<rparr>) = STREAMING_BOOST_MIN_STEP"
  by (simp add: boostPieceWindow_def coerceIn_def sampleEngine_def sampleStream_def longStream_def
      STREAMING_BOOST_MIN_STEP_def i32_def priorityFor_def specifiedPriority_def upto.simps)

section \<open>The cursors\<close>

lemma scanPieces_Found: "scanPieces eng ps = Found p \<Longrightarrow> p \<in> set ps"
  by (induction ps) (auto split: option.splits if_splits)

lemma findNextMissingPiece_range:
  assumes "findNextMissingPiece eng stream c = Some m"
  shows "m = - 1 \<or> (fileStartPiece stream \<le> m \<and> m \<le> fileEndPiece stream)"
proof (cases "isValid eng")
  case False
  then show ?thesis using assms by (simp add: findNextMissingPiece_def)
next
  case True
  then obtain pivot where
    c: "coerceIn c (fileStartPiece stream) (fileEndPiece stream) = Some pivot"
    using assms by (auto simp: findNextMissingPiece_def Let_def split: option.splits)
  then have pv: "fileStartPiece stream \<le> pivot" "pivot \<le> fileEndPiece stream"
    by (auto simp: coerceIn_def split: if_splits)
  have "m = - 1 \<or> scanPieces eng [pivot..fileEndPiece stream] = Found m
        \<or> scanPieces eng [fileStartPiece stream..pivot - 1] = Found m"
    using assms True c
    by (auto simp: findNextMissingPiece_def Let_def split: Scan.splits)
  then show ?thesis using pv by (auto dest!: scanPieces_Found)
qed

lemma boostPieceWindow_cursor:
  assumes "0 \<le> fileStartPiece stream"
    and "lastBoostedPiece stream + STREAMING_BOOST_MIN_STEP \<le> Int_MAX"
    and "boostPieceWindow eng stream fromPiece windowPieces = Some (boosted, calls)"
  shows "\<exists>x. boosted = stream\<lparr>lastBoostedPiece := x\<rparr> \<and> lastBoostedPiece stream \<le> x"
proof (cases "isValid eng")
  case False
  then have "boosted = stream" using assms(3) by (simp add: boostPieceWindow_def)
  then have "boosted = stream\<lparr>lastBoostedPiece := lastBoostedPiece stream\<rparr>" by simp
  then show ?thesis by blast
next
  case True
  then obtain sp where c: "coerceIn fromPiece (fileStartPiece stream) (fileEndPiece stream) = Some sp"
    using assms(3) by (auto simp: boostPieceWindow_def split: option.splits)
  then have sp: "fileStartPiece stream \<le> sp" by (auto simp: coerceIn_def split: if_splits)
  show ?thesis
  proof (cases "lastBoostedPiece stream \<ge> 0
                \<and> sp \<le> i32 (lastBoostedPiece stream + STREAMING_BOOST_MIN_STEP)")
    case True
    then have "boosted = stream" using assms(3) \<open>isValid eng\<close> c
      by (simp add: boostPieceWindow_def)
    then have "boosted = stream\<lparr>lastBoostedPiece := lastBoostedPiece stream\<rparr>" by simp
    then show ?thesis by blast
  next
    case False
    then have b: "boosted = stream\<lparr>lastBoostedPiece := sp\<rparr>"
      using assms(3) \<open>isValid eng\<close> c by (auto simp: boostPieceWindow_def Let_def)
    have "lastBoostedPiece stream \<le> sp"
    proof (cases "lastBoostedPiece stream \<ge> 0")
      case True
      then have "i32 (lastBoostedPiece stream + STREAMING_BOOST_MIN_STEP)
                   = lastBoostedPiece stream + STREAMING_BOOST_MIN_STEP"
        using assms(2) by (intro i32_id) (auto simp: STREAMING_BOOST_MIN_STEP_def)
      then show ?thesis using False True by (auto simp: STREAMING_BOOST_MIN_STEP_def)
    next
      case False
      then show ?thesis using sp assms(1) by simp
    qed
    then show ?thesis using b by blast
  qed
qed

lemma boostPieceWindow_two_steps:
  "boostPieceWindow eng stream fromPiece windowPieces =
     (case boostStep eng (Called fromPiece windowPieces) stream of
        (Returned, tested, made) \<Rightarrow> Some (tested, made)
      | (Boosted startPiece, tested, made) \<Rightarrow>
          Some (fst (snd (boostStep eng (Boosted startPiece) tested)), made)
      | (Threw, tested, made) \<Rightarrow> None
      | (Called f w, tested, made) \<Rightarrow> None)"
  by (simp add: boostPieceWindow_def boostStep_def Let_def split: option.splits)

lemma boostStep_test:
  assumes "0 \<le> fileStartPiece stream"
    and "lastBoostedPiece stream + STREAMING_BOOST_MIN_STEP \<le> Int_MAX"
    and "boostStep eng (Called fromPiece windowPieces) stream = (Boosted startPiece, tested, made)"
  shows "tested = stream \<and> lastBoostedPiece stream < startPiece
         \<and> (0 \<le> lastBoostedPiece stream \<longrightarrow>
               lastBoostedPiece stream + STREAMING_BOOST_MIN_STEP < startPiece)"
proof -
  have v: "isValid eng" using assms(3) by (auto simp: boostStep_def split: if_splits)
  obtain sp where c: "coerceIn fromPiece (fileStartPiece stream) (fileEndPiece stream) = Some sp"
    using assms(3) v by (auto simp: boostStep_def split: option.splits)
  have sp: "fileStartPiece stream \<le> sp" using c by (auto simp: coerceIn_def split: if_splits)
  have t: "\<not> (lastBoostedPiece stream \<ge> 0
                \<and> sp \<le> i32 (lastBoostedPiece stream + STREAMING_BOOST_MIN_STEP))"
    and e: "startPiece = sp" "tested = stream"
    using assms(3) v c by (auto simp: boostStep_def Let_def split: if_splits)
  show ?thesis
  proof (cases "lastBoostedPiece stream \<ge> 0")
    case True
    then have "i32 (lastBoostedPiece stream + STREAMING_BOOST_MIN_STEP)
                 = lastBoostedPiece stream + STREAMING_BOOST_MIN_STEP"
      using assms(2) by (intro i32_id) (auto simp: STREAMING_BOOST_MIN_STEP_def)
    then show ?thesis using t True e by (auto simp: STREAMING_BOOST_MIN_STEP_def)
  next
    case False
    then show ?thesis using sp assms(1) e by simp
  qed
qed

lemma boostPieceWindow_cursor_bound:
  assumes "0 \<le> fileStartPiece stream"
    and "lastBoostedPiece stream + STREAMING_BOOST_MIN_STEP \<le> Int_MAX"
    and "boostPieceWindow eng stream fromPiece windowPieces = Some (boosted, calls)"
  shows "\<exists>x. boosted = stream\<lparr>lastBoostedPiece := x\<rparr> \<and> lastBoostedPiece stream \<le> x
             \<and> (x = lastBoostedPiece stream \<or> x \<le> fileEndPiece stream)"
proof (cases "isValid eng")
  case False
  then have "boosted = stream" using assms(3) by (simp add: boostPieceWindow_def)
  then have "boosted = stream\<lparr>lastBoostedPiece := lastBoostedPiece stream\<rparr>" by simp
  then show ?thesis by blast
next
  case True
  then obtain sp where c: "coerceIn fromPiece (fileStartPiece stream) (fileEndPiece stream) = Some sp"
    using assms(3) by (auto simp: boostPieceWindow_def split: option.splits)
  then have sp: "fileStartPiece stream \<le> sp" "sp \<le> fileEndPiece stream"
    by (auto simp: coerceIn_def split: if_splits)
  have "boosted = stream \<or> boosted = stream\<lparr>lastBoostedPiece := sp\<rparr>"
    using assms(3) True c by (auto simp: boostPieceWindow_def Let_def split: if_splits)
  then show ?thesis
  proof
    assume "boosted = stream"
    then have "boosted = stream\<lparr>lastBoostedPiece := lastBoostedPiece stream\<rparr>" by simp
    then show ?thesis by blast
  next
    assume b: "boosted = stream\<lparr>lastBoostedPiece := sp\<rparr>"
    obtain x where x: "boosted = stream\<lparr>lastBoostedPiece := x\<rparr>" "lastBoostedPiece stream \<le> x"
      using boostPieceWindow_cursor [OF assms] by blast
    have "lastBoostedPiece boosted = sp" using b by simp
    moreover have "lastBoostedPiece boosted = x" using x(1) by simp
    ultimately have "x = sp" by simp
    then show ?thesis using x sp by blast
  qed
qed

lemma waitForPiecePolls_cursor:
  assumes "0 \<le> fileStartPiece s"
    and "lastBoostedPiece s + STREAMING_BOOST_MIN_STEP \<le> Int_MAX"
    and "fileEndPiece s + STREAMING_BOOST_MIN_STEP \<le> Int_MAX"
    and "waitForPiecePolls polls final s p = Some (ready, w)"
  shows "lastBoostedPiece s \<le> lastBoostedPiece w \<and> nextPrefetchPiece w = nextPrefetchPiece s"
  using assms
proof (induction polls arbitrary: s)
  case Nil
  then show ?case by simp
next
  case (Cons eng rest)
  show ?case
  proof (cases "havePiece eng p")
    case None
    then show ?thesis using Cons.prems(4) by simp
  next
    case (Some hv)
    show ?thesis
    proof (cases hv)
      case True
      then show ?thesis using Cons.prems(4) Some by simp
    next
      case False
      then obtain b calls where b: "boostPieceWindow eng s p None = Some (b, calls)"
        and r: "waitForPiecePolls rest final b p = Some (ready, w)"
        using Cons.prems(4) Some by (auto split: option.splits)
      obtain x where x: "b = s\<lparr>lastBoostedPiece := x\<rparr>" "lastBoostedPiece s \<le> x"
        "x = lastBoostedPiece s \<or> x \<le> fileEndPiece s"
        using boostPieceWindow_cursor_bound [OF Cons.prems(1,2) b] by blast
      have q1: "0 \<le> fileStartPiece b" using x(1) Cons.prems(1) by simp
      have q2: "lastBoostedPiece b + STREAMING_BOOST_MIN_STEP \<le> Int_MAX"
        using x Cons.prems(2,3) by auto
      have q3: "fileEndPiece b + STREAMING_BOOST_MIN_STEP \<le> Int_MAX"
        using x(1) Cons.prems(3) by simp
      have "lastBoostedPiece b \<le> lastBoostedPiece w \<and> nextPrefetchPiece w = nextPrefetchPiece b"
        using q1 q2 q3 r by (rule Cons.IH)
      then show ?thesis using x by simp
    qed
  qed
qed

lemma waitForPiece_cursor:
  assumes "0 \<le> fileStartPiece s"
    and "lastBoostedPiece s + STREAMING_BOOST_MIN_STEP \<le> Int_MAX"
    and "fileEndPiece s + STREAMING_BOOST_MIN_STEP \<le> Int_MAX"
    and "waitForPiece first polls final s p = Some (ready, w)"
  shows "lastBoostedPiece s \<le> lastBoostedPiece w \<and> nextPrefetchPiece w = nextPrefetchPiece s"
proof (cases "isValid first")
  case False
  then show ?thesis using assms(4) by (simp add: waitForPiece_def)
next
  case True
  then obtain sp where "waitForPiecePolls polls final s sp = Some (ready, w)"
    using assms(4) by (auto simp: waitForPiece_def split: option.splits)
  then show ?thesis using assms(1,2,3) by (intro waitForPiecePolls_cursor)
qed

text \<open>
  C7 (as amended). A call of \<open>boostPieceWindow\<close> assigns \<open>lastBoostedPiece\<close> only a piece
  beyond the value it tested (by more than the minimum step, unless no boost was made
  before), and does not touch \<open>nextPrefetchPiece\<close>. So a call that runs from its test to
  its assignment with no other call's assignment in between, from the read path or within
  a pass of the prefetch loop, leaves \<open>lastBoostedPiece\<close> where it is or moves it forward,
  and so do the successive boosts of one \<open>waitForPiece\<close>.
  The calls are not synchronised: when they overlap, the assignment of one can lower the
  value another has assigned, as the example after the theorem shows.
  \<open>nextPrefetchPiece\<close> is assigned by the prefetch loop alone; a pass moves it forward
  when the scan finds its missing piece at or after the cursor, and when the scan has
  wrapped to a piece behind the cursor the new value may be smaller.
\<close>

theorem cursors_advance:
  assumes "0 \<le> fileStartPiece stream"
    and "lastBoostedPiece stream + STREAMING_BOOST_MIN_STEP \<le> Int_MAX"
    and "nextPrefetchPiece stream \<le> fileEndPiece stream"
    and "0 \<le> prefetchAdvanceStep stream"
    and "fileEndPiece stream + prefetchAdvanceStep stream \<le> Int_MAX"
  shows "(boostPieceWindow eng stream fromPiece windowPieces = Some (boosted, calls) \<longrightarrow>
            lastBoostedPiece stream \<le> lastBoostedPiece boosted
            \<and> nextPrefetchPiece boosted = nextPrefetchPiece stream)
         \<and> (prefetchIteration stillActive eng stream = Continue advanced calls' \<longrightarrow>
              lastBoostedPiece stream \<le> lastBoostedPiece advanced
              \<and> (coerceIn (nextPrefetchPiece stream) (fileStartPiece stream) (fileEndPiece stream)
                    = Some cursor
                  \<and> findNextMissingPiece eng stream cursor = Some missing
                  \<and> cursor \<le> missing \<longrightarrow>
                  nextPrefetchPiece stream \<le> nextPrefetchPiece advanced))
         \<and> (boostStep eng (Called fromPiece windowPieces) stream
               = (Boosted startPiece, tested, made) \<longrightarrow>
              tested = stream \<and> lastBoostedPiece stream < startPiece
              \<and> (0 \<le> lastBoostedPiece stream \<longrightarrow>
                    lastBoostedPiece stream + STREAMING_BOOST_MIN_STEP < startPiece))
         \<and> boostStep eng (Boosted startPiece) shared
               = (Returned, shared\<lparr>lastBoostedPiece := startPiece\<rparr>, [])
         \<and> (fileEndPiece stream + STREAMING_BOOST_MIN_STEP \<le> Int_MAX
              \<and> waitForPiece first polls final stream pieceIndex = Some (ready, waited) \<longrightarrow>
              lastBoostedPiece stream \<le> lastBoostedPiece waited
              \<and> nextPrefetchPiece waited = nextPrefetchPiece stream)"
proof (intro conjI impI)
  assume "boostPieceWindow eng stream fromPiece windowPieces = Some (boosted, calls)"
  then obtain x where "boosted = stream\<lparr>lastBoostedPiece := x\<rparr>" "lastBoostedPiece stream \<le> x"
    using boostPieceWindow_cursor[OF assms(1,2)] by blast
  then show "lastBoostedPiece stream \<le> lastBoostedPiece boosted"
    and "nextPrefetchPiece boosted = nextPrefetchPiece stream" by simp_all
next
  assume it: "prefetchIteration stillActive eng stream = Continue advanced calls'"
  then obtain fromP m b where
    c: "coerceIn (nextPrefetchPiece stream) (fileStartPiece stream) (fileEndPiece stream) = Some fromP"
    and f: "findNextMissingPiece eng stream fromP = Some m" and m0: "\<not> m < 0"
    and bo: "boostPieceWindow eng stream m (Some (prefetchWindowPieces stream)) = Some (b, calls')"
    and adv: "advanced = b\<lparr>nextPrefetchPiece :=
                min (fileEndPiece stream) (i32 (m + prefetchAdvanceStep stream))\<rparr>"
    by (auto simp: prefetchIteration_def split: if_splits option.splits)
  obtain x where x: "b = stream\<lparr>lastBoostedPiece := x\<rparr>" "lastBoostedPiece stream \<le> x"
    using boostPieceWindow_cursor[OF assms(1,2) bo] by blast
  show "lastBoostedPiece stream \<le> lastBoostedPiece advanced" using adv x by simp
  assume w: "coerceIn (nextPrefetchPiece stream) (fileStartPiece stream) (fileEndPiece stream)
               = Some cursor
             \<and> findNextMissingPiece eng stream cursor = Some missing \<and> cursor \<le> missing"
  then have e: "cursor = fromP" "missing = m" using c f by auto
  have cur: "nextPrefetchPiece stream \<le> fromP"
    using c assms(3) by (auto simp: coerceIn_def split: if_splits)
  have rng: "m \<le> fileEndPiece stream" using findNextMissingPiece_range[OF f] m0 by auto
  have "i32 (m + prefetchAdvanceStep stream) = m + prefetchAdvanceStep stream"
    using rng m0 assms(4,5) by (intro i32_id) auto
  then show "nextPrefetchPiece stream \<le> nextPrefetchPiece advanced"
    using adv x cur e w assms(3,4) by simp
next
  assume s: "boostStep eng (Called fromPiece windowPieces) stream = (Boosted startPiece, tested, made)"
  note b = boostStep_test [OF assms(1,2) s]
  show "tested = stream" using b by blast
  show "lastBoostedPiece stream < startPiece" using b by blast
  assume "0 \<le> lastBoostedPiece stream"
  then show "lastBoostedPiece stream + STREAMING_BOOST_MIN_STEP < startPiece" using b by blast
next
  show "boostStep eng (Boosted startPiece) shared
               = (Returned, shared\<lparr>lastBoostedPiece := startPiece\<rparr>, [])"
    by (simp add: boostStep_def)
next
  assume w: "fileEndPiece stream + STREAMING_BOOST_MIN_STEP \<le> Int_MAX
              \<and> waitForPiece first polls final stream pieceIndex = Some (ready, waited)"
  then have "lastBoostedPiece stream \<le> lastBoostedPiece waited
              \<and> nextPrefetchPiece waited = nextPrefetchPiece stream"
    using assms(1,2) by (intro waitForPiece_cursor) auto
  then show "lastBoostedPiece stream \<le> lastBoostedPiece waited"
    and "nextPrefetchPiece waited = nextPrefetchPiece stream" by simp_all
qed

theorem cursors_advance_witness:
  "prefetchIteration True sampleEngine (sampleStream\<lparr>prefetchWindowPieces := 1, nextPrefetchPiece := 1\<rparr>) =
     Continue (sampleStream\<lparr>prefetchWindowPieces := 1, nextPrefetchPiece := 9, lastBoostedPiece := 2\<rparr>)
       [PiecePriority 2 SEVEN, SetPieceDeadline 2 0, PiecePriority 3 SEVEN, SetPieceDeadline 3 120]
   \<and> findNextMissingPiece sampleEngine (sampleStream\<lparr>prefetchWindowPieces := 1, nextPrefetchPiece := 1\<rparr>) 1 = Some 2
   \<and> (1::int) \<le> 9 \<and> (- 1::int) \<le> 2
   \<and> boostStep sampleEngine (Called 2 (Some 1))
        (sampleStream\<lparr>prefetchWindowPieces := 1, nextPrefetchPiece := 1\<rparr>)
      = (Boosted 2, sampleStream\<lparr>prefetchWindowPieces := 1, nextPrefetchPiece := 1\<rparr>,
         [PiecePriority 2 SEVEN, SetPieceDeadline 2 0, PiecePriority 3 SEVEN, SetPieceDeadline 3 120])
   \<and> (- 1::int) < 2"
proof -
  let ?s = "sampleStream\<lparr>prefetchWindowPieces := 1, nextPrefetchPiece := 1\<rparr>"
  let ?c = "[PiecePriority 2 SEVEN, SetPieceDeadline 2 0, PiecePriority 3 SEVEN, SetPieceDeadline 3 120]"
  have h1: "0 \<le> fileStartPiece ?s" by (simp add: sampleStream_def)
  have h2: "lastBoostedPiece ?s + STREAMING_BOOST_MIN_STEP \<le> Int_MAX"
    by (simp add: sampleStream_def STREAMING_BOOST_MIN_STEP_def Int_MAX_def)
  have h3: "nextPrefetchPiece ?s \<le> fileEndPiece ?s" by (simp add: sampleStream_def)
  have h4: "0 \<le> prefetchAdvanceStep ?s" by (simp add: sampleStream_def)
  have h5: "fileEndPiece ?s + prefetchAdvanceStep ?s \<le> Int_MAX"
    by (simp add: sampleStream_def Int_MAX_def)
  have st: "boostStep sampleEngine (Called 2 (Some 1)) ?s = (Boosted 2, ?s, ?c)"
    by (simp add: boostStep_def coerceIn_def sampleEngine_def sampleStream_def
        STREAMING_BOOST_MIN_STEP_def i32_def priorityFor_def upto.simps)
  have f: "findNextMissingPiece sampleEngine ?s 1 = Some 2"
    by (simp add: findNextMissingPiece_def coerceIn_def sampleEngine_def sampleStream_def
        upto.simps)
  have it: "prefetchIteration True sampleEngine ?s =
     Continue (sampleStream\<lparr>prefetchWindowPieces := 1, nextPrefetchPiece := 9, lastBoostedPiece := 2\<rparr>) ?c"
    by (simp add: prefetchIteration_def findNextMissingPiece_def boostPieceWindow_def coerceIn_def
      sampleEngine_def sampleStream_def
      Int_MAX_def STREAMING_BOOST_MIN_STEP_def i32_def priorityFor_def upto.simps)
  have cu: "coerceIn (nextPrefetchPiece ?s) (fileStartPiece ?s) (fileEndPiece ?s) = Some 1"
    by (simp add: coerceIn_def sampleStream_def)
  note t = cursors_advance [OF h1 h2 h3 h4 h5, where eng = sampleEngine and stillActive = True
      and cursor = 1 and missing = 2 and fromPiece = 2 and windowPieces = "Some 1"
      and advanced = "sampleStream\<lparr>prefetchWindowPieces := 1, nextPrefetchPiece := 9, lastBoostedPiece := 2\<rparr>"
      and calls' = ?c and startPiece = 2 and tested = ?s and made = ?c]
  have a: "nextPrefetchPiece ?s \<le> nextPrefetchPiece
            (sampleStream\<lparr>prefetchWindowPieces := 1, nextPrefetchPiece := 9, lastBoostedPiece := 2\<rparr>)"
    and b: "lastBoostedPiece ?s \<le> lastBoostedPiece
            (sampleStream\<lparr>prefetchWindowPieces := 1, nextPrefetchPiece := 9, lastBoostedPiece := 2\<rparr>)"
    using t it cu f by simp_all
  have c: "lastBoostedPiece ?s < 2" using t st by blast
  have a': "(1::int) \<le> 9" using a by simp
  have b': "(- 1::int) \<le> 2" using b by (simp add: sampleStream_def)
  have c': "(- 1::int) < 2" using c by (simp add: sampleStream_def)
  show ?thesis using it f st a' b' c' by simp
qed

text \<open>
  The scan wraps: with the cursor at piece 90 of 100, pieces 90 to 99 present and piece 2
  missing, one pass of the prefetch loop sets \<open>nextPrefetchPiece\<close> to 26.
\<close>

theorem nextPrefetchPiece_decreases_counterexample:
  "nextPrefetchPiece (longStream\<lparr>nextPrefetchPiece := 90\<rparr>) = 90
   \<and> findNextMissingPiece sampleEngine (longStream\<lparr>nextPrefetchPiece := 90\<rparr>) 90 = Some 2
   \<and> nextPrefetchPiece
        (prefetchLoop [(True, sampleEngine)] (longStream\<lparr>nextPrefetchPiece := 90\<rparr>)) = 26"
  by (simp add: prefetchIteration_def findNextMissingPiece_def boostPieceWindow_def coerceIn_def
      sampleEngine_def sampleStream_def longStream_def
      STREAMING_BOOST_MIN_STEP_def i32_def priorityFor_def upto.simps)

text \<open>
  Two calls overlap on a stream of a hundred pieces whose \<open>lastBoostedPiece\<close> is 10: one
  from the read path at piece 95 and one from the prefetch loop at piece 92. Both pass the
  test against 10; the first assigns 95, then the second assigns 92. Run one after the
  other, the second call is behind 95 and returns.
\<close>

theorem lastBoostedPiece_lowered_by_overlapping_calls:
  "lastBoostedPiece
     (snd (interleave sampleEngine [0, 1, 0] [Called 95 None, Called 92 (Some 256)]
             (longStream\<lparr>lastBoostedPiece := 10\<rparr>))) = 95
   \<and> lastBoostedPiece
       (snd (interleave sampleEngine [0, 1, 0, 1] [Called 95 None, Called 92 (Some 256)]
               (longStream\<lparr>lastBoostedPiece := 10\<rparr>))) = 92
   \<and> lastBoostedPiece
       (snd (interleave sampleEngine [0, 0, 1, 1] [Called 95 None, Called 92 (Some 256)]
               (longStream\<lparr>lastBoostedPiece := 10\<rparr>))) = 95"
proof -
  let ?s = "longStream\<lparr>lastBoostedPiece := 10\<rparr>"
  have t10: "\<exists>made. boostStep sampleEngine (Called 95 None) ?s = (Boosted 95, ?s, made)"
    by (simp add: boostStep_def coerceIn_def sampleEngine_def longStream_def sampleStream_def
        STREAMING_BOOST_MIN_STEP_def i32_def Let_def)
  have t11: "\<exists>made. boostStep sampleEngine (Called 92 (Some 256)) ?s = (Boosted 92, ?s, made)"
    by (simp add: boostStep_def coerceIn_def sampleEngine_def longStream_def sampleStream_def
        STREAMING_BOOST_MIN_STEP_def i32_def Let_def)
  have w: "\<And>p x. boostStep sampleEngine (Boosted p) x = (Returned, x\<lparr>lastBoostedPiece := p\<rparr>, [])"
    by (simp add: boostStep_def)
  have t2: "boostStep sampleEngine (Called 92 (Some 256)) (longStream\<lparr>lastBoostedPiece := 95\<rparr>)
              = (Returned, longStream\<lparr>lastBoostedPiece := 95\<rparr>, [])"
    by (simp add: boostStep_def coerceIn_def sampleEngine_def longStream_def sampleStream_def
        STREAMING_BOOST_MIN_STEP_def i32_def Let_def)
  have r: "\<And>x. boostStep sampleEngine Returned x = (Returned, x, [])"
    by (simp add: boostStep_def)
  obtain m0 where m0: "boostStep sampleEngine (Called 95 None) ?s = (Boosted 95, ?s, m0)"
    using t10 by blast
  obtain m1 where m1: "boostStep sampleEngine (Called 92 (Some 256)) ?s = (Boosted 92, ?s, m1)"
    using t11 by blast
  show ?thesis by (simp add: m0 m1 w t2 r)
qed

section \<open>The network class\<close>

text \<open>
  C4 (as amended). \<open>getNetworkClassForMbps\<close> is a total step function of the estimate:
  zero and NaN are taken as 20 Mbps; every other estimate is clamped to
  \<open>[0.1, 1000]\<close> and then classified by the six bands, so a negative estimate is
  very-slow. \<open>deriveStreamingTuning\<close> picks the profile of the same six bands, taking 20
  Mbps for a missing, non-finite or non-positive estimate.
\<close>

theorem network_class_step_function:
  "getNetworkClassForMbps x =
     (case x of
        Finite r \<Rightarrow>
          if r = 0 then specifiedBand 20
          else specifiedBand (max (3602879701896397 / 36028797018963968) (min 1000 r))
      | PosInf \<Rightarrow> specifiedBand 1000
      | NegInf \<Rightarrow> specifiedBand (3602879701896397 / 36028797018963968)
      | NaN \<Rightarrow> specifiedBand 20)
   \<and> deriveStreamingTuning n =
     profileOf (specifiedBand
       (case n of Some (Finite r) \<Rightarrow> if r > 0 then r else 20 | _ \<Rightarrow> 20))"
proof
  show "getNetworkClassForMbps x =
     (case x of
        Finite r \<Rightarrow>
          if r = 0 then specifiedBand 20
          else specifiedBand (max (3602879701896397 / 36028797018963968) (min 1000 r))
      | PosInf \<Rightarrow> specifiedBand 1000
      | NegInf \<Rightarrow> specifiedBand (3602879701896397 / 36028797018963968)
      | NaN \<Rightarrow> specifiedBand 20)"
  proof (cases x)
    case (Finite r)
    then show ?thesis
      by (auto simp: getNetworkClassForMbps_def clamp_def orElse_def mathMin_def mathMax_def
          DEFAULT_NETWORK_MBPS_def MIN_NETWORK_MBPS_def specifiedBand_def Let_def)
  qed (simp_all add: getNetworkClassForMbps_def clamp_def orElse_def mathMin_def mathMax_def
          DEFAULT_NETWORK_MBPS_def MIN_NETWORK_MBPS_def specifiedBand_def Let_def)
  show "deriveStreamingTuning n =
     profileOf (specifiedBand
       (case n of Some (Finite r) \<Rightarrow> if r > 0 then r else 20 | _ \<Rightarrow> 20))"
    by (simp add: deriveStreamingTuning_def specifiedBand_def Let_def
        STREAMING_WINDOW_PIECES_def PREFETCH_WINDOW_PIECES_def PREFETCH_ADVANCE_STEP_def
        split: option.splits Double.splits)
qed

theorem network_class_step_function_witness:
  "getNetworkClassForMbps (Finite 1) = VERY_SLOW
   \<and> getNetworkClassForMbps (Finite 5) = SLOW
   \<and> getNetworkClassForMbps (Finite 20) = MEDIUM
   \<and> getNetworkClassForMbps (Finite 1000) = ULTRA
   \<and> getNetworkClassForMbps (Finite 0) = MEDIUM
   \<and> getNetworkClassForMbps NaN = MEDIUM
   \<and> getNetworkClassForMbps (Finite (1 / 100)) = VERY_SLOW
   \<and> deriveStreamingTuning None = profileOf MEDIUM
   \<and> deriveStreamingTuning (Some (Finite (- 1))) = profileOf MEDIUM
   \<and> deriveStreamingTuning (Some (Finite 300)) = profileOf ULTRA"
  using network_class_step_function [of "Finite 1" None]
    network_class_step_function [of "Finite 5" "Some (Finite (- 1))"]
    network_class_step_function [of "Finite 20" "Some (Finite 300)"]
    network_class_step_function [of "Finite 1000" None]
    network_class_step_function [of "Finite 0" None]
    network_class_step_function [of NaN None]
    network_class_step_function [of "Finite (1 / 100)" None]
  by (simp add: specifiedBand_def)

text \<open>
  A negative estimate is not replaced by the default of 20 Mbps: it is clamped to the
  minimum and classified very-slow.
\<close>

theorem negative_estimate_counterexample:
  "getNetworkClassForMbps (Finite (- 1)) = VERY_SLOW
   \<and> getNetworkClassForMbps DEFAULT_NETWORK_MBPS = MEDIUM"
  by (simp add: getNetworkClassForMbps_def clamp_def orElse_def mathMin_def mathMax_def
      DEFAULT_NETWORK_MBPS_def MIN_NETWORK_MBPS_def Let_def)

section \<open>The piece geometry\<close>

lemma i64_id: "Long_MIN \<le> x \<Longrightarrow> x \<le> Long_MAX \<Longrightarrow> i64 x = x"
  by (simp add: i64_def Long_MAX_def Long_MIN_def)

lemma kdiv_nonneg: "0 \<le> a \<Longrightarrow> 0 < b \<Longrightarrow> kdiv a b = a div b"
  by (cases "a = 0") (simp_all add: kdiv_def)

lemma div_nonneg_pos: "(0::int) \<le> off \<Longrightarrow> 0 < pl \<Longrightarrow> 0 \<le> off div pl"
  by (simp add: pos_imp_zdiv_nonneg_iff)

lemma div_mono_size: "(1::int) \<le> sz \<Longrightarrow> 0 < pl \<Longrightarrow> off div pl \<le> (off + sz - 1) div pl"
  by (intro zdiv_mono1) auto

lemma i64_sum_id: "0 \<le> off \<Longrightarrow> 1 \<le> sz \<Longrightarrow> off + sz \<le> Long_MAX \<Longrightarrow> i64 (off + sz) = off + sz"
  by (intro i64_id) (auto simp: Long_MIN_def)

lemma i32_quotient_id: "0 \<le> q1 \<Longrightarrow> q1 \<le> q2 \<Longrightarrow> q2 \<le> Int_MAX \<Longrightarrow> i32 q1 = q1"
  by (intro i32_id) auto

lemma geometry_quotients:
  assumes "0 \<le> off" and "1 \<le> sz" and "off + sz \<le> Long_MAX" and "0 < pl" and "1 \<le> tp"
    and "(off + sz - 1) div pl \<le> Int_MAX"
  shows "coerceIn (i32 (kdiv off pl)) 0 (tp - 1) = Some (max 0 (min (tp - 1) (off div pl)))"
    and "coerceIn (i32 (kdiv (i64 (i64 (off + sz) - 1)) pl))
           (max 0 (min (tp - 1) (off div pl))) (tp - 1)
         = Some (max 0 (min (tp - 1) ((off + sz - 1) div pl)))"
    and "max 0 (min (tp - 1) (off div pl)) \<le> max 0 (min (tp - 1) ((off + sz - 1) div pl))"
proof -
  have q1: "0 \<le> off div pl" using assms by (simp add: div_nonneg_pos)
  have q12: "off div pl \<le> (off + sz - 1) div pl" using assms by (simp add: div_mono_size)
  have k1: "kdiv off pl = off div pl" using assms by (simp add: kdiv_nonneg)
  have a1: "i64 (off + sz) = off + sz" using assms by (simp add: i64_sum_id)
  have a2: "i64 (off + sz - 1) = off + sz - 1"
    using assms by (intro i64_id) (auto simp: Long_MIN_def)
  have k2: "kdiv (off + sz - 1) pl = (off + sz - 1) div pl"
    using assms by (intro kdiv_nonneg) auto
  have i1: "i32 (off div pl) = off div pl" using q1 q12 assms(6) by (rule i32_quotient_id)
  have i2: "i32 ((off + sz - 1) div pl) = (off + sz - 1) div pl"
    using q1 q12 assms(6) by (intro i32_id) auto
  show "coerceIn (i32 (kdiv off pl)) 0 (tp - 1) = Some (max 0 (min (tp - 1) (off div pl)))"
    unfolding k1 i1 using assms(5) by (simp add: coerceIn_clamp)
  show le: "max 0 (min (tp - 1) (off div pl)) \<le> max 0 (min (tp - 1) ((off + sz - 1) div pl))"
    using q12 by auto
  show "coerceIn (i32 (kdiv (i64 (i64 (off + sz) - 1)) pl))
           (max 0 (min (tp - 1) (off div pl))) (tp - 1)
         = Some (max 0 (min (tp - 1) ((off + sz - 1) div pl)))"
    unfolding a1 a2 k2 i2 using q1 q12 assms(5) by (auto simp: coerceIn_def)
qed


lemma newStream_pieces:
  "fileStartPiece (newStream env infoHashHex dir h selectedFileIndex f tuning (a, b, c, d)) = c"
  "fileEndPiece (newStream env infoHashHex dir h selectedFileIndex f tuning (a, b, c, d)) = d"
  "pieceLength (newStream env infoHashHex dir h selectedFileIndex f tuning (a, b, c, d)) = a"
  "totalPieces (newStream env infoHashHex dir h selectedFileIndex f tuning (a, b, c, d)) = b"
  "streamId (newStream env infoHashHex dir h selectedFileIndex f tuning (a, b, c, d)) = randomUUID env"
  by (simp_all add: newStream_def)

text \<open>
  C5 (as amended). For a file at a non-negative offset whose piece quotients fit an
  \<open>Int\<close>, the stream is created with \<open>firstPiece = fileOffset div pieceLength\<close> and
  \<open>lastPiece = (fileOffset + max 1 fileSize - 1) div pieceLength\<close>, both clamped to
  \<open>[0, totalPieces - 1]\<close>, where \<open>pieceLength\<close> and \<open>totalPieces\<close> are the
  torrent's values raised to at least 1. For a file of at least one byte that is the
  quotient \<open>(fileOffset + fileSize - 1) div pieceLength\<close> of the claim.
\<close>

theorem piece_geometry:
  assumes "0 \<le> entryOffset f"
    and "entryOffset f + max 1 (entrySize f) \<le> Long_MAX"
    and "pl = max 1 (infoPieceLength torrentInfo)"
    and "tp = max 1 (numPieces torrentInfo)"
    and "(entryOffset f + max 1 (entrySize f) - 1) div pl \<le> Int_MAX"
    and "firstPiece = max 0 (min (tp - 1) (entryOffset f div pl))"
    and "lastPiece = max 0 (min (tp - 1) ((entryOffset f + max 1 (entrySize f) - 1) div pl))"
  shows "pieceGeometry (entrySize f) (entryOffset f) (infoPieceLength torrentInfo)
           (numPieces torrentInfo) = Some (pl, tp, firstPiece, lastPiece)
         \<and> fileStartPiece (newStream env infoHashHex dir h selectedFileIndex f tuning
                             (pl, tp, firstPiece, lastPiece)) = firstPiece
         \<and> fileEndPiece (newStream env infoHashHex dir h selectedFileIndex f tuning
                           (pl, tp, firstPiece, lastPiece)) = lastPiece
         \<and> firstPiece \<le> lastPiece"
proof -
  have pl: "0 < pl" and tp: "1 \<le> tp" using assms(3,4) by simp_all
  have sz: "1 \<le> max 1 (entrySize f)" by simp
  note q = geometry_quotients [OF assms(1) sz assms(2) pl tp assms(5)]
  have c1: "coerceIn (i32 (kdiv (entryOffset f) pl)) 0 (tp - 1) = Some firstPiece"
    unfolding assms(6) by (rule q(1))
  have c2: "coerceIn (i32 (kdiv (i64 (i64 (entryOffset f + max 1 (entrySize f)) - 1)) pl))
              firstPiece (tp - 1) = Some lastPiece"
    unfolding assms(6,7) by (rule q(2))
  have g: "pieceGeometry (entrySize f) (entryOffset f) (infoPieceLength torrentInfo)
             (numPieces torrentInfo) = Some (pl, tp, firstPiece, lastPiece)"
    unfolding pieceGeometry_def Let_def assms(3)[symmetric] assms(4)[symmetric]
      c1 option.case c2
    by (rule refl)
  have le: "firstPiece \<le> lastPiece" unfolding assms(6,7) by (rule q(3))
  show ?thesis unfolding newStream_pieces using g le by (intro conjI) simp_all
qed

theorem piece_geometry_witness:
  "pieceGeometry 250 150 100 4 = Some (100, 4, 1, 3)
   \<and> fileStartPiece (newStream sampleEnv ''def'' ''/cache/torrent-stream/def'' 2 1
         (files sampleInfo ! 1) (profileOf MEDIUM) (100, 4, 1, 3)) = 1
   \<and> fileEndPiece (newStream sampleEnv ''def'' ''/cache/torrent-stream/def'' 2 1
         (files sampleInfo ! 1) (profileOf MEDIUM) (100, 4, 1, 3)) = 3"
proof -
  let ?f = "files sampleInfo ! 1"
  have h1: "0 \<le> entryOffset ?f"
    and h2: "entryOffset ?f + max 1 (entrySize ?f) \<le> Long_MAX"
    and h3: "100 = max 1 (infoPieceLength sampleInfo)"
    and h4: "4 = max 1 (numPieces sampleInfo)"
    and h5: "(entryOffset ?f + max 1 (entrySize ?f) - 1) div 100 \<le> Int_MAX"
    and h6: "1 = max 0 (min (4 - 1) (entryOffset ?f div 100))"
    and h7: "3 = max 0 (min (4 - 1) ((entryOffset ?f + max 1 (entrySize ?f) - 1) div 100))"
    by (simp_all add: sampleInfo_def Long_MAX_def Int_MAX_def)
  show ?thesis
    using piece_geometry [OF h1 h2 h3 h4 h5 h6 h7, where env = sampleEnv
        and infoHashHex = "''def''" and dir = "''/cache/torrent-stream/def''" and h = 2
        and selectedFileIndex = 1 and tuning = "profileOf MEDIUM"]
    by (simp add: sampleInfo_def)
qed

text \<open>
  For an empty file at offset 100 in pieces of 100 bytes the last piece is 1, not the
  clamped quotient \<open>(100 + 0 - 1) div 100 = 0\<close>.
\<close>

theorem piece_geometry_empty_file_counterexample:
  "pieceGeometry 0 100 100 10 = Some (100, 10, 1, 1)
   \<and> max 0 (min (10 - 1) ((100 + 0 - 1) div 100)) = (0::int)"
  by (simp add: pieceGeometry_def coerceIn_def kdiv_def i32_def i64_def)


section \<open>The body of a range response\<close>


lemma boostPieceWindow_only_cursor:
  "boostPieceWindow eng s f w = Some (b, calls) \<Longrightarrow> \<exists>x. b = s\<lparr>lastBoostedPiece := x\<rparr>"
proof -
  assume a: "boostPieceWindow eng s f w = Some (b, calls)"
  have "b = s \<or> (\<exists>x. b = s\<lparr>lastBoostedPiece := x\<rparr>)"
    using a by (auto simp: boostPieceWindow_def Let_def split: if_splits option.splits)
  moreover have "s = s\<lparr>lastBoostedPiece := lastBoostedPiece s\<rparr>" by simp
  ultimately show ?thesis by metis
qed

lemma waitForPiecePolls_only_cursor:
  "waitForPiecePolls polls final s p = Some (ready, w) \<Longrightarrow> \<exists>x. w = s\<lparr>lastBoostedPiece := x\<rparr>"
proof (induction polls arbitrary: s)
  case Nil
  then have "w = s" by simp
  then have "w = s\<lparr>lastBoostedPiece := lastBoostedPiece s\<rparr>" by simp
  then show ?case by blast
next
  case (Cons eng rest)
  show ?case
  proof (cases "havePiece eng p")
    case None
    then have "w = s" using Cons.prems by simp
    then have "w = s\<lparr>lastBoostedPiece := lastBoostedPiece s\<rparr>" by simp
    then show ?thesis by blast
  next
    case (Some hv)
    show ?thesis
    proof (cases hv)
      case True
      then have "w = s" using Cons.prems Some by simp
      then have "w = s\<lparr>lastBoostedPiece := lastBoostedPiece s\<rparr>" by simp
      then show ?thesis by blast
    next
      case False
      then obtain b calls where b: "boostPieceWindow eng s p None = Some (b, calls)"
        and r: "waitForPiecePolls rest final b p = Some (ready, w)"
        using Cons.prems Some by (auto split: option.splits)
      obtain x where x: "b = s\<lparr>lastBoostedPiece := x\<rparr>"
        using boostPieceWindow_only_cursor [OF b] by blast
      obtain y where "w = b\<lparr>lastBoostedPiece := y\<rparr>" using Cons.IH [OF r] by blast
      then have "w = s\<lparr>lastBoostedPiece := y\<rparr>" using x by simp
      then show ?thesis by blast
    qed
  qed
qed

lemma waitForPiece_only_cursor:
  assumes "waitForPiece first polls final s p = Some (ready, w)"
  shows "\<exists>x. w = s\<lparr>lastBoostedPiece := x\<rparr>"
proof (cases "isValid first")
  case False
  then have "w = s" using assms by (simp add: waitForPiece_def)
  then have "w = s\<lparr>lastBoostedPiece := lastBoostedPiece s\<rparr>" by simp
  then show ?thesis by blast
next
  case True
  then obtain sp where "waitForPiecePolls polls final s sp = Some (ready, w)"
    using assms by (auto simp: waitForPiece_def split: option.splits)
  then show ?thesis by (rule waitForPiecePolls_only_cursor)
qed






lemma readable_cursor [simp]:
  "readable (s\<lparr>lastBoostedPiece := x\<rparr>) env = readable s env"
  by (simp add: readable_def)








section \<open>The unsatisfiable-range branch\<close>

lemma parseRangeHeader_Some:
  assumes "parseRangeHeader h fs = Some (a, b)"
  shows "0 \<le> a \<and> a \<le> b \<and> b < fs"
proof -
  obtain hd where h: "h = Some hd" using assms by (cases h) (simp_all add: parseRangeHeader_def)
  obtain p0 p1 where sp: "split2 (trim (removePrefix hd ''bytes='')) = [p0, p1]"
    using assms unfolding h parseRangeHeader_def
    by (auto simp: Let_def split: if_splits list.splits)
  show ?thesis
    using assms unfolding h parseRangeHeader_def
    by (auto simp: Let_def sp split: if_splits option.splits)
qed

text \<open>
  For files of positive size the branch with status 416 is never taken, whatever the
  request.
\<close>

theorem status_416_unreachable:
  assumes "\<forall>s\<in>snd ` set registry. 0 < fileSize s \<and> fileSize s \<le> Long_MAX"
  shows "status (serve registry session) \<noteq> RANGE_NOT_SATISFIABLE"
proof (cases "map_of registry
                (substringBefore (removePrefix (uri session) ''/torrent/'') CHR ''/'')")
  case None
  then show ?thesis
    by (simp add: serve_def serveTorrentRequest_def Let_def newFixedLengthResponse_def)
next
  case (Some stream)
  then have "stream \<in> snd ` set registry" by (metis map_of_SomeD snd_conv image_eqI)
  then have fs: "0 < fileSize stream" "fileSize stream \<le> Long_MAX" using assms by auto
  have e: "i64 (fileSize stream - 1) = fileSize stream - 1"
    using fs by (intro i64_id) (auto simp: Long_MIN_def)
  show ?thesis
  proof (cases "parseRangeHeader (map_of (headers session) ''range'') (fileSize stream)")
    case None
    then show ?thesis using Some fs e
      by (simp add: serve_def serveTorrentRequest_def Let_def newFixedLengthResponse_def
          addHeader_def)
  next
    case (Some ab)
    obtain a b where ab: "ab = (a, b)" by (cases ab)
    have "0 \<le> a \<and> a \<le> b \<and> b < fileSize stream"
      using Some ab parseRangeHeader_Some by blast
    then show ?thesis using \<open>map_of registry _ = Some stream\<close> Some ab
      by (simp add: serve_def serveTorrentRequest_def Let_def newFixedLengthResponse_def
          addHeader_def)
  qed
qed

theorem status_416_unreachable_witness:
  "status (serve [(''s1'', sampleStream)] (rangeRequest GET ''s1'' 1000 2000)) \<noteq> RANGE_NOT_SATISFIABLE"
  using status_416_unreachable [of "[(''s1'', sampleStream)]" "rangeRequest GET ''s1'' 1000 2000"]
  by (simp add: sampleStream_def Long_MAX_def)


section \<open>The registry\<close>

lemma stopStreamLocked_registry:
  "activeStreams (stopStreamLocked stream cleanupFiles st) = activeStreams st"
  by (simp add: stopStreamLocked_def Let_def split: option.splits)

lemma foldl_stop_registry:
  "activeStreams (foldl (\<lambda>s stream. stopStreamLocked stream cleanupFiles s) st streams)
     = activeStreams st"
  by (induction streams arbitrary: st) (simp_all add: stopStreamLocked_registry)

lemma stopAllStreamsLocked_registry: "activeStreams (stopAllStreamsLocked cleanupFiles st) = []"
  by (simp add: stopAllStreamsLocked_def Let_def foldl_stop_registry)

lemma delete_absent: "map_of al k = None \<Longrightarrow> AList.delete k al = al"
  by (induction al) (auto simp: AList.delete_eq split: if_splits)

lemma length_delete: "length (AList.delete k al) \<le> length al"
  by (simp add: AList.delete_eq)

text \<open>
  C10. \<open>stopStream\<close> resolves with \<open>true\<close> for every stream id; when the registry
  holds no stream under the id, the state is left as it was.
\<close>

theorem stopStream_resolves_true:
  "snd (stopStream sid st) = Resolved True
   \<and> (map_of (activeStreams st) sid = None \<longrightarrow> fst (stopStream sid st) = st)"
  by (auto simp: stopStream_def Let_def delete_absent split: option.splits)

theorem stopStream_resolves_true_witness:
  "stopStream ''never-registered'' sampleState = (sampleState, Resolved True)
   \<and> snd (stopStream ''s1'' sampleState) = Resolved True
   \<and> snd (stopStream ''s1'' (fst (stopStream ''s1'' sampleState))) = Resolved True
   \<and> fst (stopStream ''s1'' (fst (stopStream ''s1'' sampleState))) = fst (stopStream ''s1'' sampleState)"
proof -
  have a: "map_of (activeStreams sampleState) ''never-registered'' = None"
    by (simp add: sampleState_def)
  have b: "map_of (activeStreams (fst (stopStream ''s1'' sampleState))) ''s1'' = None"
    by (simp add: stopStream_def sampleState_def Let_def stopStreamLocked_registry)
  show ?thesis
    using stopStream_resolves_true [of "''never-registered''" sampleState]
      stopStream_resolves_true [of "''s1''" sampleState]
      stopStream_resolves_true [of "''s1''" "fst (stopStream ''s1'' sampleState)"]
      a b
    by (simp add: prod_eq_iff)
qed

section \<open>Preparing a stream stops the stream before it\<close>

lemma prefetchIteration_only_cursors:
  assumes "prefetchIteration stillActive eng s = Continue advanced calls"
  shows "\<exists>x y. advanced = s\<lparr>nextPrefetchPiece := x, lastBoostedPiece := y\<rparr>"
proof -
  obtain m b where
    bo: "boostPieceWindow eng s m (Some (prefetchWindowPieces s)) = Some (b, calls)"
    and adv: "advanced = b\<lparr>nextPrefetchPiece :=
                min (fileEndPiece s) (i32 (m + prefetchAdvanceStep s))\<rparr>"
    using assms by (auto simp: prefetchIteration_def split: if_splits option.splits)
  obtain y where "b = s\<lparr>lastBoostedPiece := y\<rparr>"
    using boostPieceWindow_only_cursor [OF bo] by blast
  then have "advanced = s\<lparr>nextPrefetchPiece :=
                min (fileEndPiece s) (i32 (m + prefetchAdvanceStep s)), lastBoostedPiece := y\<rparr>"
    using adv by simp
  then show ?thesis by blast
qed

lemma same_cursors:
  "s = s\<lparr>nextPrefetchPiece := nextPrefetchPiece s, lastBoostedPiece := lastBoostedPiece s\<rparr>"
  by simp

lemma prefetchLoop_only_cursors:
  "\<exists>x y. prefetchLoop passes s = s\<lparr>nextPrefetchPiece := x, lastBoostedPiece := y\<rparr>"
proof (induction passes arbitrary: s)
  case Nil
  show ?case using same_cursors [of s] by (metis prefetchLoop.simps(1))
next
  case (Cons a rest)
  obtain stillActive eng where a: "a = (stillActive, eng)" by (cases a)
  show ?case
  proof (cases "prefetchIteration stillActive eng s")
    case (Continue advanced calls)
    obtain x y where ad: "advanced = s\<lparr>nextPrefetchPiece := x, lastBoostedPiece := y\<rparr>"
      using prefetchIteration_only_cursors [OF Continue] by blast
    obtain x' y' where
      "prefetchLoop rest advanced = advanced\<lparr>nextPrefetchPiece := x', lastBoostedPiece := y'\<rparr>"
      using Cons.IH [of advanced] by blast
    then have "prefetchLoop (a # rest) s = s\<lparr>nextPrefetchPiece := x', lastBoostedPiece := y'\<rparr>"
      using a Continue ad by simp
    then show ?thesis by blast
  next
    case Break
    then have "prefetchLoop (a # rest) s = s" using a by simp
    then show ?thesis using same_cursors [of s] by metis
  next
    case Thrown
    then have "prefetchLoop (a # rest) s = s" using a by simp
    then show ?thesis using same_cursors [of s] by metis
  qed
qed

lemma register_empty:
  "activeStreams st = [] \<Longrightarrow> activeStreams (register s st) = [(streamId s, s)]"
  by (simp add: register_def)

lemma register_same:
  "activeStreams st = [(k, x)] \<Longrightarrow> streamId s = k \<Longrightarrow> activeStreams (register s st) = [(k, s)]"
  by (simp add: register_def)

lemma registerAndPrime_registry:
  assumes "activeStreams st = []"
  shows "\<exists>x y. activeStreams (fst (registerAndPrime env s st))
                  = [(streamId s, s\<lparr>nextPrefetchPiece := x, lastBoostedPiece := y\<rparr>)]"
    and "snd (registerAndPrime env s st) = Inr result \<Longrightarrow> resultStreamId result = streamId s"
proof -
  let ?st3 = "register s st"
  have r3: "activeStreams ?st3 = [(streamId s, s)]" using assms by (rule register_empty)
  show "\<exists>x y. activeStreams (fst (registerAndPrime env s st))
                  = [(streamId s, s\<lparr>nextPrefetchPiece := x, lastBoostedPiece := y\<rparr>)]"
  proof (cases "boostPieceWindow (boostEngine env) s (fileStartPiece s)
                  (Some (prefetchWindowPieces s))")
    case None
    then have "activeStreams (fst (registerAndPrime env s st)) = [(streamId s, s)]"
      using r3 by (simp add: registerAndPrime_def Let_def)
    then show ?thesis using same_cursors [of s] by metis
  next
    case (Some bc)
    obtain b calls where bc: "bc = (b, calls)" by (cases bc)
    note bo = Some [unfolded bc]
    obtain y0 where b: "b = s\<lparr>lastBoostedPiece := y0\<rparr>"
      using boostPieceWindow_only_cursor [OF bo] by blast
    define pf where "pf = startPrefetchLoop (map_of (activeStreams ?st3) (streamId s) \<noteq> None)
                            (prefetchEngines env) b"
    obtain x1 y1 where "pf = b\<lparr>nextPrefetchPiece := x1, lastBoostedPiece := y1\<rparr>"
      unfolding pf_def startPrefetchLoop_def using prefetchLoop_only_cursors by blast
    then have pf: "pf = s\<lparr>nextPrefetchPiece := x1, lastBoostedPiece := y1\<rparr>" using b by simp
    have r4: "activeStreams (register pf ?st3) = [(streamId s, pf)]"
      using r3 by (rule register_same) (simp add: pf)
    show ?thesis
    proof (cases "waitForPiece (boostEngine env) (pollEngines env) (finalEngine env) pf
                    (fileStartPiece s)")
      case None
      then have "activeStreams (fst (registerAndPrime env s st)) = [(streamId s, pf)]"
        using bo r4 by (simp add: registerAndPrime_def Let_def pf_def)
      then show ?thesis using pf by blast
    next
      case (Some rw)
      obtain ready w where rw: "rw = (ready, w)" by (cases rw)
      note wf = Some [unfolded rw]
      obtain y2 where "w = pf\<lparr>lastBoostedPiece := y2\<rparr>"
        using waitForPiece_only_cursor [OF wf] by blast
      then have w: "w = s\<lparr>nextPrefetchPiece := x1, lastBoostedPiece := y2\<rparr>" using pf by simp
      have r5: "activeStreams (register w (register pf ?st3)) = [(streamId s, w)]"
        using r4 by (rule register_same) (simp add: w)
      have "activeStreams (fst (registerAndPrime env s st)) = [(streamId s, w)]"
        using bo wf r5 by (simp add: registerAndPrime_def Let_def pf_def split: option.splits)
      then show ?thesis using w by blast
    qed
  qed
  show "snd (registerAndPrime env s st) = Inr result \<Longrightarrow> resultStreamId result = streamId s"
    by (auto simp: registerAndPrime_def Let_def split: option.splits)
qed

lemma newStream_identity:
  "streamId (newStream env infoHashHex dir h selectedFileIndex f tuning g) = randomUUID env
   \<and> infoHash (newStream env infoHashHex dir h selectedFileIndex f tuning g) = infoHashHex
   \<and> handle (newStream env infoHashHex dir h selectedFileIndex f tuning g) = h"
  by (cases g) (simp add: newStream_def)

lemma prepareFromMetadata_cases:
  "prepareFromMetadata env p n ih dir h ti st =
     (st, Inl (IllegalStateException ''No playable video file found in torrent''))
   \<or> prepareFromMetadata env p n ih dir h ti st = (st, Inl IllegalArgumentException)
   \<or> (\<exists>s. streamId s = randomUUID env \<and> infoHash s = ih \<and> handle s = h
          \<and> prepareFromMetadata env p n ih dir h ti st = registerAndPrime env s st)"
proof (cases "selectPlayableFileIndex ti p < 0")
  case True
  then show ?thesis by (simp add: prepareFromMetadata_def Let_def)
next
  case False
  show ?thesis
  proof (cases "pieceGeometry (entrySize (files ti ! nat (selectPlayableFileIndex ti p)))
                  (entryOffset (files ti ! nat (selectPlayableFileIndex ti p)))
                  (infoPieceLength ti) (numPieces ti)")
    case None
    then show ?thesis using False by (simp add: prepareFromMetadata_def Let_def)
  next
    case (Some g)
    then have "prepareFromMetadata env p n ih dir h ti st =
                 registerAndPrime env
                   (newStream env ih dir h (selectPlayableFileIndex ti p)
                      (files ti ! nat (selectPlayableFileIndex ti p))
                      (deriveStreamingTuning n) g) st"
      using False by (simp add: prepareFromMetadata_def Let_def)
    then show ?thesis using newStream_identity by blast
  qed
qed

lemma prepareFromMetadata_registry:
  assumes "activeStreams st = []"
  shows "activeStreams (fst (prepareFromMetadata env p n ih dir h ti st)) = []
         \<or> (\<exists>x. activeStreams (fst (prepareFromMetadata env p n ih dir h ti st))
                   = [(randomUUID env, x)]
                 \<and> streamId x = randomUUID env \<and> infoHash x = ih \<and> handle x = h)"
    and "snd (prepareFromMetadata env p n ih dir h ti st) = Inr result \<Longrightarrow>
           \<exists>x. activeStreams (fst (prepareFromMetadata env p n ih dir h ti st))
                  = [(resultStreamId result, x)]"
proof -
  consider
    (a) "fst (prepareFromMetadata env p n ih dir h ti st) = st"
        "\<exists>e. snd (prepareFromMetadata env p n ih dir h ti st) = Inl e"
    | (b) s where "streamId s = randomUUID env" "infoHash s = ih" "handle s = h"
        "prepareFromMetadata env p n ih dir h ti st = registerAndPrime env s st"
    using prepareFromMetadata_cases [of env p n ih dir h ti st] by auto
  note cs = this
  show "activeStreams (fst (prepareFromMetadata env p n ih dir h ti st)) = []
         \<or> (\<exists>x. activeStreams (fst (prepareFromMetadata env p n ih dir h ti st))
                   = [(randomUUID env, x)]
                 \<and> streamId x = randomUUID env \<and> infoHash x = ih \<and> handle x = h)"
  proof (cases rule: cs)
    case a
    then show ?thesis using assms by simp
  next
    case (b s)
    obtain x y where "activeStreams (fst (registerAndPrime env s st))
                        = [(streamId s, s\<lparr>nextPrefetchPiece := x, lastBoostedPiece := y\<rparr>)]"
      using registerAndPrime_registry(1)[OF assms, of env s] by blast
    then have "activeStreams (fst (prepareFromMetadata env p n ih dir h ti st))
                 = [(randomUUID env, s\<lparr>nextPrefetchPiece := x, lastBoostedPiece := y\<rparr>)]
               \<and> streamId (s\<lparr>nextPrefetchPiece := x, lastBoostedPiece := y\<rparr>) = randomUUID env
               \<and> infoHash (s\<lparr>nextPrefetchPiece := x, lastBoostedPiece := y\<rparr>) = ih
               \<and> handle (s\<lparr>nextPrefetchPiece := x, lastBoostedPiece := y\<rparr>) = h"
      using b by simp
    then show ?thesis by blast
  qed
  show "\<exists>x. activeStreams (fst (prepareFromMetadata env p n ih dir h ti st))
                  = [(resultStreamId result, x)]"
    if r: "snd (prepareFromMetadata env p n ih dir h ti st) = Inr result"
  proof (cases rule: cs)
    case a
    then show ?thesis using r by auto
  next
    case (b s)
    have "resultStreamId result = streamId s"
      using registerAndPrime_registry(2)[OF assms, of env s result] r b(4) by simp
    then show ?thesis using registerAndPrime_registry(1)[OF assms, of env s] b(4) by auto
  qed
qed

lemma prepareAfterStop_cases:
  "(\<exists>e st'. prepareAfterStop env p n st = (st', Inl e) \<and> activeStreams st' = activeStreams st)
   \<or> (\<exists>ih dir h ti st'. activeStreams st' = activeStreams st
         \<and> parsedInfoHash env = Some ih \<and> waitedHandle env = Some h
         \<and> prepareAfterStop env p n st = prepareFromMetadata env p n ih dir h ti st')"
proof (cases "parsedInfoHash env")
  case None
  then have "prepareAfterStop env p n st = (st, Inl MagnetParseException)"
    by (simp add: prepareAfterStop_def)
  then show ?thesis by blast
next
  case (Some ih)
  define dir where "dir = (cacheDir env @ ''/torrent-stream'') @ ''/'' @ ih"
  define st1 where
    "st1 = st\<lparr>disk := mkdirs dir (mkdirs (cacheDir env @ ''/torrent-stream'') (disk st))\<rparr>"
  have a1: "activeStreams st1 = activeStreams st" by (simp add: st1_def)
  have u: "prepareAfterStop env p n st =
     (case sessionManager st1 of
        None \<Rightarrow> (st1, Inl (IllegalStateException ''Torrent session is not initialized''))
      | Some sm \<Rightarrow>
          (case waitedHandle env of
             None \<Rightarrow> (st1, Inl (IllegalStateException
                                    ''Timed out while waiting for torrent handle''))
           | Some h \<Rightarrow>
               (case waitedMetadata env of
                  None \<Rightarrow>
                    (st1\<lparr>sessionManager := Some (sm\<lparr>torrents := List.insert h (torrents sm)\<rparr>)\<rparr>,
                     Inl (IllegalStateException
                            ''Timed out while waiting for torrent metadata''))
                | Some torrentInfo \<Rightarrow>
                    prepareFromMetadata env p n ih dir h torrentInfo
                      (st1\<lparr>sessionManager :=
                             Some (sm\<lparr>torrents := List.insert h (torrents sm)\<rparr>)\<rparr>))))"
    unfolding prepareAfterStop_def Some option.case Let_def st1_def dir_def by (rule refl)
  show ?thesis
  proof (cases "sessionManager st1")
    case None
    then show ?thesis using u a1 by auto
  next
    case sm: (Some sm)
    show ?thesis
    proof (cases "waitedHandle env")
      case None
      then show ?thesis using u a1 sm by auto
    next
      case h: (Some h)
      define st2 where
        "st2 = st1\<lparr>sessionManager := Some (sm\<lparr>torrents := List.insert h (torrents sm)\<rparr>)\<rparr>"
      have a2: "activeStreams st2 = activeStreams st" using a1 by (simp add: st2_def)
      show ?thesis
      proof (cases "waitedMetadata env")
        case None
        then have "prepareAfterStop env p n st =
                     (st2, Inl (IllegalStateException
                                  ''Timed out while waiting for torrent metadata''))"
          using u sm h by (simp add: st2_def)
        then show ?thesis using a2 by blast
      next
        case (Some ti)
        then have "prepareAfterStop env p n st = prepareFromMetadata env p n ih dir h ti st2"
          using u sm h by (simp add: st2_def)
        then show ?thesis using a2 h \<open>parsedInfoHash env = Some ih\<close> by blast
      qed
    qed
  qed
qed

lemma prepareAfterStop_registry:
  assumes "activeStreams st = []"
  shows "activeStreams (fst (prepareAfterStop env p n st)) = []
         \<or> (\<exists>x. activeStreams (fst (prepareAfterStop env p n st)) = [(randomUUID env, x)]
                 \<and> streamId x = randomUUID env
                 \<and> parsedInfoHash env = Some (infoHash x) \<and> waitedHandle env = Some (handle x))"
    and "snd (prepareAfterStop env p n st) = Inr result \<Longrightarrow>
           \<exists>x. activeStreams (fst (prepareAfterStop env p n st)) = [(resultStreamId result, x)]"
proof -
  consider
    (a) e st' where "prepareAfterStop env p n st = (st', Inl e)"
        "activeStreams st' = activeStreams st"
    | (b) ih dir h ti st' where "activeStreams st' = activeStreams st"
        "parsedInfoHash env = Some ih" "waitedHandle env = Some h"
        "prepareAfterStop env p n st = prepareFromMetadata env p n ih dir h ti st'"
    using prepareAfterStop_cases [of env p n st] by blast
  note cs = this
  show "activeStreams (fst (prepareAfterStop env p n st)) = []
         \<or> (\<exists>x. activeStreams (fst (prepareAfterStop env p n st)) = [(randomUUID env, x)]
                 \<and> streamId x = randomUUID env
                 \<and> parsedInfoHash env = Some (infoHash x) \<and> waitedHandle env = Some (handle x))"
  proof (cases rule: cs)
    case (a e st')
    then show ?thesis using assms by simp
  next
    case (b ih dir h ti st')
    then have "activeStreams st' = []" using assms by simp
    then show ?thesis using prepareFromMetadata_registry(1)[of st' env p n ih dir h ti] b(2,3,4)
      by auto
  qed
  show "\<exists>x. activeStreams (fst (prepareAfterStop env p n st)) = [(resultStreamId result, x)]"
    if r: "snd (prepareAfterStop env p n st) = Inr result"
  proof (cases rule: cs)
    case (a e st')
    then show ?thesis using r by simp
  next
    case (b ih dir h ti st')
    then have "activeStreams st' = []" using assms by simp
    then show ?thesis
      using prepareFromMetadata_registry(2)[of st' env p n ih dir h ti result] b(4) r by simp
  qed
qed

lemma deleteRecursively_gone: "file \<notin> set (deleteRecursively file paths)"
  by (auto simp: deleteRecursively_def)

lemma deleteRecursively_subset: "set (deleteRecursively file paths) \<subseteq> set paths"
  by (auto simp: deleteRecursively_def)

lemma stopStreamLocked_disk_gone: "saveDir s \<notin> set (disk (stopStreamLocked s True st))"
  by (simp add: stopStreamLocked_def Let_def deleteRecursively_gone split: option.splits)

lemma stopStreamLocked_disk_subset: "set (disk (stopStreamLocked s c st)) \<subseteq> set (disk st)"
  using deleteRecursively_subset
  by (auto simp: stopStreamLocked_def Let_def split: option.splits)

lemma stopStreamLocked_released: "removedUnlessThrown (stopStreamLocked s c st) (handle s)"
  by (simp add: stopStreamLocked_def removedUnlessThrown_def removeThrowsAt_def holdsHandle_def Let_def split: option.splits)

lemma stopStreamLocked_keeps_released:
  "removedUnlessThrown st h \<Longrightarrow> removedUnlessThrown (stopStreamLocked s c st) h"
  by (auto simp: stopStreamLocked_def removedUnlessThrown_def removeThrowsAt_def holdsHandle_def Let_def split: option.splits if_splits)

lemma foldl_stop_disk_subset:
  "set (disk (foldl (\<lambda>st x. stopStreamLocked x c st) st streams)) \<subseteq> set (disk st)"
proof (induction streams arbitrary: st)
  case Nil
  then show ?case by simp
next
  case (Cons x xs)
  then show ?case using stopStreamLocked_disk_subset by fastforce
qed

lemma foldl_stop_keeps_released:
  "removedUnlessThrown st h \<Longrightarrow> removedUnlessThrown (foldl (\<lambda>st x. stopStreamLocked x c st) st streams) h"
  by (induction streams arbitrary: st) (simp_all add: stopStreamLocked_keeps_released)

lemma foldl_stop_cleans:
  assumes "s \<in> set streams"
  shows "saveDir s \<notin> set (disk (foldl (\<lambda>st x. stopStreamLocked x True st) st streams))
         \<and> removedUnlessThrown (foldl (\<lambda>st x. stopStreamLocked x True st) st streams) (handle s)"
  using assms
proof (induction streams arbitrary: st)
  case Nil
  then show ?case by simp
next
  case (Cons x xs)
  show ?case
  proof (cases "s = x")
    case True
    have "saveDir s \<notin> set (disk (stopStreamLocked s True st))"
      by (rule stopStreamLocked_disk_gone)
    then have d: "saveDir s \<notin> set (disk (foldl (\<lambda>st x. stopStreamLocked x True st)
                     (stopStreamLocked s True st) xs))"
      using foldl_stop_disk_subset by blast
    have r: "removedUnlessThrown (foldl (\<lambda>st x. stopStreamLocked x True st)
                     (stopStreamLocked s True st) xs) (handle s)"
      by (intro foldl_stop_keeps_released stopStreamLocked_released)
    show ?thesis using d r True by simp
  next
    case False
    then have "s \<in> set xs" using Cons.prems by simp
    then show ?thesis using Cons.IH by simp
  qed
qed

lemma stopAllStreamsLocked_cleans:
  assumes "s \<in> snd ` set (activeStreams st)"
  shows "saveDir s \<notin> set (disk (stopAllStreamsLocked True st))
         \<and> removedUnlessThrown (stopAllStreamsLocked True st) (handle s)"
proof -
  have "s \<in> set (map snd (activeStreams st))" using assms by simp
  then show ?thesis
    unfolding stopAllStreamsLocked_def Let_def by (rule foldl_stop_cleans)
qed

lemma ensure_registry:
  "activeStreams (ensureHttpServerStartedLocked port (ensureSessionStartedLocked st))
     = activeStreams st"
  by (simp add: ensureHttpServerStartedLocked_def ensureSessionStartedLocked_def
      split: option.splits)

lemma prepareLocked_cleans:
  assumes "s \<in> snd ` set (activeStreams st)"
  shows "saveDir s \<notin> set (disk (prepareLocked env st))
         \<and> removedUnlessThrown (prepareLocked env st) (handle s)"
  unfolding prepareLocked_def
  by (rule stopAllStreamsLocked_cleans) (simp add: ensure_registry assms)

lemma prepareLocked_registry: "activeStreams (prepareLocked env st) = []"
  by (simp add: prepareLocked_def stopAllStreamsLocked_registry)

lemma prepareStreamInternal_registry:
  "activeStreams (fst (prepareStreamInternal env p n st)) = []
   \<or> (\<exists>x. activeStreams (fst (prepareStreamInternal env p n st)) = [(randomUUID env, x)]
           \<and> streamId x = randomUUID env
           \<and> parsedInfoHash env = Some (infoHash x) \<and> waitedHandle env = Some (handle x))"
  unfolding prepareStreamInternal_def
  by (rule prepareAfterStop_registry(1)) (rule prepareLocked_registry)

lemma prepareStreamInternal_result:
  "snd (prepareStreamInternal env p n st) = Inr result \<Longrightarrow>
     \<exists>x. activeStreams (fst (prepareStreamInternal env p n st)) = [(resultStreamId result, x)]"
  unfolding prepareStreamInternal_def
  by (rule prepareAfterStop_registry(2)) (simp_all add: prepareLocked_registry)

lemma prepareStreamInternal_atMostOne:
  "length (activeStreams (fst (prepareStreamInternal env p n st))) \<le> 1"
  using prepareStreamInternal_registry [of env p n st] by auto

lemma prepareStream_state:
  "\<not> isBlank magnetUri \<Longrightarrow>
     fst (prepareStream (Some magnetUri) env p n st) = fst (prepareStreamInternal env p n st)"
  by (simp add: prepareStream_def split: prod.splits sum.splits)

lemma prepareStream_resolved:
  "\<not> isBlank magnetUri \<Longrightarrow> snd (prepareStream (Some magnetUri) env p n st) = Resolved result \<Longrightarrow>
     snd (prepareStreamInternal env p n st) = Inr result"
  by (auto simp: prepareStream_def split: prod.splits sum.splits)

lemma prepareStream_rejected:
  "magnetUri = None \<or> isBlank (the magnetUri) \<Longrightarrow>
     prepareStream magnetUri env p n st = (st, Rejected ''TORRENT_INVALID_INPUT'')"
  by (simp add: prepareStream_def)

lemma perform_atMostOne:
  assumes "length (activeStreams st) \<le> 1"
  shows "length (activeStreams (perform operation st)) \<le> 1"
proof (cases operation)
  case (PrepareStream magnetUri env p n)
  then show ?thesis
    using assms prepareStreamInternal_atMostOne [of env p n st]
    by (auto simp: prepareStream_def split: prod.splits sum.splits)
next
  case (StopStream sid)
  have "length (AList.delete sid (activeStreams st)) \<le> 1"
    using assms length_delete [of sid "activeStreams st"] by simp
  then show ?thesis using StopStream
    by (simp add: stopStream_def Let_def stopStreamLocked_registry split: option.splits)
next
  case StopAllStreams
  then show ?thesis by (simp add: stopAllStreams_def stopAllStreamsLocked_registry)
next
  case Invalidate
  then show ?thesis by (simp add: shutdownLocked_def stopAllStreamsLocked_registry)
qed

lemma run_atMostOne:
  "length (activeStreams st) \<le> 1 \<Longrightarrow> length (activeStreams (run ops st)) \<le> 1"
  unfolding run_def
proof (induction ops arbitrary: st)
  case Nil
  then show ?case by simp
next
  case (Cons operation rest)
  have "length (activeStreams (perform operation st)) \<le> 1"
    using Cons.prems by (rule perform_atMostOne)
  then have "length (activeStreams
               (foldl (\<lambda>s operation. perform operation s) (perform operation st) rest)) \<le> 1"
    by (rule Cons.IH)
  then show ?case by simp
qed

lemma sample_prepareLocked:
  "prepareLocked sampleEnv sampleState =
     \<lparr>activeStreams = [],
      sessionManager = Some \<lparr>isRunning = True, torrents = [], removeThrows = (\<lambda>h. False)\<rparr>,
      httpServer = Some 8080,
      disk = [''/cache/torrent-stream'']\<rparr>"
  by (simp add: prepareLocked_def stopAllStreamsLocked_def stopStreamLocked_def
      ensureHttpServerStartedLocked_def ensureSessionStartedLocked_def deleteRecursively_def
      sampleState_def sampleStream_def startsWith_def Let_def)

lemma sample_select: "selectPlayableFileIndex sampleInfo None = 1"
  by (simp add: selectPlayableFileIndex_def sampleInfo_def lowercase_def lowerChar_def
      char_of_def bit_Suc_0_iff isLikelyVideoFile_def endsWith_def Long_MIN_def
      startsWith_def Let_def)

lemma sample_geometry: "pieceGeometry 250 150 100 4 = Some (100, 4, 1, 3)"
  by (simp add: pieceGeometry_def coerceIn_def kdiv_def i32_def i64_def)

lemma sample_fromMetadata:
  "prepareFromMetadata sampleEnv None None ih dir h sampleInfo st =
     registerAndPrime sampleEnv
       (newStream sampleEnv ih dir h 1
          \<lparr>entryPath = ''Movie.MKV'', entrySize = 250, entryOffset = 150\<rparr>
          (deriveStreamingTuning None) (100, 4, 1, 3)) st"
  unfolding prepareFromMetadata_def Let_def sample_select
  by (simp add: sampleInfo_def sample_geometry)

lemma sample_newStream:
  "newStream sampleEnv ''def'' ''/cache/torrent-stream/def'' 2 1
          \<lparr>entryPath = ''Movie.MKV'', entrySize = 250, entryOffset = 150\<rparr>
          (deriveStreamingTuning None) (100, 4, 1, 3)
   = \<lparr>streamId = ''s2'', infoHash = ''def'', saveDir = ''/cache/torrent-stream/def'',
       handle = 2, fileIndex = 1, fileName = ''Movie.MKV'',
       filePath = ''/cache/torrent-stream/def/Movie.MKV'',
       fileSize = 250, fileOffset = 150, pieceLength = 100, totalPieces = 4,
       fileStartPiece = 1, fileEndPiece = 3,
       streamingWindowPieces = 112, prefetchWindowPieces = 256, prefetchAdvanceStep = 24,
       pieceDeadlineStepMs = 120, boostNearPieces = 24, boostMidPieces = 48,
       nextPrefetchPiece = 1, lastBoostedPiece = - 1\<rparr>"
  by (simp add: newStream_def sampleEnv_def deriveStreamingTuning_def mkTuning_def
      PREFETCH_WINDOW_PIECES_def STREAMING_WINDOW_PIECES_def PREFETCH_ADVANCE_STEP_def
      isBlank_def isWhitespace_def)

lemma sample_boost:
  "boostPieceWindow sampleEngine preparedStream 1 (Some 256) =
     Some (preparedStream\<lparr>lastBoostedPiece := 1\<rparr>,
           [PiecePriority 1 SEVEN, SetPieceDeadline 1 0,
            PiecePriority 2 SEVEN, SetPieceDeadline 2 120,
            PiecePriority 3 SEVEN, SetPieceDeadline 3 240])"
  by (simp add: boostPieceWindow_def preparedStream_def sampleEngine_def coerceIn_def i32_def
      STREAMING_BOOST_MIN_STEP_def priorityFor_def upto.simps Let_def)

lemma sample_prefetch:
  "startPrefetchLoop True [sampleEngine] (preparedStream\<lparr>lastBoostedPiece := 1\<rparr>) =
     preparedStream\<lparr>nextPrefetchPiece := 3, lastBoostedPiece := 1\<rparr>"
  by (simp add: startPrefetchLoop_def prefetchIteration_def findNextMissingPiece_def
      boostPieceWindow_def preparedStream_def sampleEngine_def coerceIn_def i32_def
      STREAMING_BOOST_MIN_STEP_def upto.simps Let_def)

lemma sample_wait:
  "waitForPiece sampleEngine [] sampleEngine
     (preparedStream\<lparr>nextPrefetchPiece := 3, lastBoostedPiece := 1\<rparr>) 1 =
     Some (True, preparedStream\<lparr>nextPrefetchPiece := 3, lastBoostedPiece := 1\<rparr>)"
  by (simp add: waitForPiece_def preparedStream_def sampleEngine_def coerceIn_def)

lemma sample_registerAndPrime:
  "registerAndPrime sampleEnv preparedStream
       \<lparr>activeStreams = [],
        sessionManager = Some \<lparr>isRunning = True, torrents = [2], removeThrows = (\<lambda>h. False)\<rparr>,
        httpServer = Some 8080,
        disk = [''/cache/torrent-stream'', ''/cache/torrent-stream/def'']\<rparr>
   = (\<lparr>activeStreams =
          [(''s2'', preparedStream\<lparr>nextPrefetchPiece := 3, lastBoostedPiece := 1\<rparr>)],
        sessionManager = Some \<lparr>isRunning = True, torrents = [2], removeThrows = (\<lambda>h. False)\<rparr>,
        httpServer = Some 8080,
        disk = [''/cache/torrent-stream'', ''/cache/torrent-stream/def'']\<rparr>,
      Inr \<lparr>resultStreamId = ''s2'', playbackUrl = ''http://127.0.0.1:8080/torrent/s2'',
          resultInfoHash = ''def'', resultFileName = ''Movie.MKV'', resultFileSize = 250,
          resultMimeType = ''video/x-matroska''\<rparr>)"
proof -
  have e: "boostEngine sampleEnv = sampleEngine" "prefetchEngines sampleEnv = [sampleEngine]"
    "pollEngines sampleEnv = []" "finalEngine sampleEnv = sampleEngine"
    by (simp_all add: sampleEnv_def)
  have f: "fileStartPiece preparedStream = 1" "prefetchWindowPieces preparedStream = 256"
    "streamId preparedStream = ''s2''" "infoHash preparedStream = ''def''"
    "fileName preparedStream = ''Movie.MKV''" "fileSize preparedStream = 250"
    by (simp_all add: preparedStream_def)
  have g: "guessMimeType ''Movie.MKV'' = ''video/x-matroska''"
    by (simp add: guessMimeType_def lowercase_def lowerChar_def char_of_def bit_Suc_0_iff
        endsWith_def)
  have p: "toString 8080 = ''8080''"
    by (simp add: toString_def digitsOf.simps digitChar_def)
  show ?thesis
    unfolding registerAndPrime_def Let_def e f sample_boost option.case prod.case
    by (simp add: register_def sample_prefetch sample_wait f g p)
qed

lemma sample_prepare:
  "prepareStreamInternal sampleEnv None None sampleState
   = (\<lparr>activeStreams =
          [(''s2'', preparedStream\<lparr>nextPrefetchPiece := 3, lastBoostedPiece := 1\<rparr>)],
        sessionManager = Some \<lparr>isRunning = True, torrents = [2], removeThrows = (\<lambda>h. False)\<rparr>,
        httpServer = Some 8080,
        disk = [''/cache/torrent-stream'', ''/cache/torrent-stream/def'']\<rparr>,
      Inr \<lparr>resultStreamId = ''s2'', playbackUrl = ''http://127.0.0.1:8080/torrent/s2'',
          resultInfoHash = ''def'', resultFileName = ''Movie.MKV'', resultFileSize = 250,
          resultMimeType = ''video/x-matroska''\<rparr>)"
proof -
  have "prepareStreamInternal sampleEnv None None sampleState =
          registerAndPrime sampleEnv
       (newStream sampleEnv ''def'' ''/cache/torrent-stream/def'' 2 1
          \<lparr>entryPath = ''Movie.MKV'', entrySize = 250, entryOffset = 150\<rparr>
          (deriveStreamingTuning None) (100, 4, 1, 3))
       \<lparr>activeStreams = [],
        sessionManager = Some \<lparr>isRunning = True, torrents = [2], removeThrows = (\<lambda>h. False)\<rparr>,
        httpServer = Some 8080,
        disk = [''/cache/torrent-stream'', ''/cache/torrent-stream/def'']\<rparr>"
    unfolding prepareStreamInternal_def sample_prepareLocked prepareAfterStop_def
    by (simp add: sampleEnv_def sample_fromMetadata[unfolded sampleEnv_def] mkdirs_def Let_def)
  then show ?thesis
    unfolding sample_newStream preparedStream_def [symmetric]
    by (simp only: sample_registerAndPrime)
qed

lemma sample_magnet: "\<not> isBlank ''magnet:?xt=urn:btih:def''"
  by (simp add: isBlank_def isWhitespace_def)

text \<open>
  C3 (as amended). A \<open>prepareStream\<close> whose magnet link is not blank begins by stopping
  every stream of the registry: after its first synchronized block the registry is empty,
  and each stream that was active has its save directory deleted and its handle removed from
  the session, unless the session's \<open>remove\<close> throws at it. Only then is the new stream
  registered: when the call ends, the registry is empty (the prepare failed before the
  registration) or holds the new stream alone, with the fresh id, the parsed info hash and
  the handle the engine gave; a call that resolves returns the id of the registered stream.
  So the lifecycle operations, in any order, never leave two streams registered. A call
  whose magnet link is missing or blank is rejected before anything is stopped.
\<close>

theorem prepareStream_single_active_stream:
  assumes "\<not> isBlank magnetUri"
  shows "fst (prepareStream (Some magnetUri) env p n st)
           = fst (prepareAfterStop env p n (prepareLocked env st))
   \<and> activeStreams (prepareLocked env st) = []
   \<and> (\<forall>s\<in>snd ` set (activeStreams st).
         saveDir s \<notin> set (disk (prepareLocked env st))
         \<and> (holdsHandle (prepareLocked env st) (handle s) \<longrightarrow>
               removeThrowsAt (prepareLocked env st) (handle s)))
   \<and> (activeStreams (fst (prepareStream (Some magnetUri) env p n st)) = []
       \<or> (\<exists>x. activeStreams (fst (prepareStream (Some magnetUri) env p n st))
                 = [(randomUUID env, x)]
               \<and> streamId x = randomUUID env
               \<and> parsedInfoHash env = Some (infoHash x)
               \<and> waitedHandle env = Some (handle x)))
   \<and> (snd (prepareStream (Some magnetUri) env p n st) = Resolved result \<longrightarrow>
         (\<exists>x. activeStreams (fst (prepareStream (Some magnetUri) env p n st))
                = [(resultStreamId result, x)]))
   \<and> (length (activeStreams st) \<le> 1 \<longrightarrow> length (activeStreams (run ops st)) \<le> 1)
   \<and> length (activeStreams (run ops initialState)) \<le> 1"
proof (intro conjI ballI impI)
  note e = prepareStream_state [OF assms, of env p n st]
  show "fst (prepareStream (Some magnetUri) env p n st)
           = fst (prepareAfterStop env p n (prepareLocked env st))"
    unfolding e by (simp add: prepareStreamInternal_def)
  show "activeStreams (prepareLocked env st) = []" by (rule prepareLocked_registry)
  show "activeStreams (fst (prepareStream (Some magnetUri) env p n st)) = []
       \<or> (\<exists>x. activeStreams (fst (prepareStream (Some magnetUri) env p n st))
                 = [(randomUUID env, x)]
               \<and> streamId x = randomUUID env
               \<and> parsedInfoHash env = Some (infoHash x)
               \<and> waitedHandle env = Some (handle x))"
    unfolding e by (rule prepareStreamInternal_registry)
  show "length (activeStreams (run ops initialState)) \<le> 1"
    by (rule run_atMostOne) (simp add: initialState_def)
next
  fix s assume s: "s \<in> snd ` set (activeStreams st)"
  show "saveDir s \<notin> set (disk (prepareLocked env st))"
    using prepareLocked_cleans [OF s] by blast
  assume "holdsHandle (prepareLocked env st) (handle s)"
  then show "removeThrowsAt (prepareLocked env st) (handle s)"
    using prepareLocked_cleans [OF s, of env] by (auto simp: removedUnlessThrown_def)
next
  assume "snd (prepareStream (Some magnetUri) env p n st) = Resolved result"
  then have "snd (prepareStreamInternal env p n st) = Inr result"
    using assms by (rule prepareStream_resolved [rotated])
  then show "\<exists>x. activeStreams (fst (prepareStream (Some magnetUri) env p n st))
                = [(resultStreamId result, x)]"
    unfolding prepareStream_state [OF assms, of env p n st]
    by (rule prepareStreamInternal_result)
next
  assume "length (activeStreams st) \<le> 1"
  then show "length (activeStreams (run ops st)) \<le> 1" by (rule run_atMostOne)
qed

theorem prepareStream_single_active_stream_witness:
  "activeStreams sampleState = [(''s1'', sampleStream)]
   \<and> activeStreams (prepareLocked sampleEnv sampleState) = []
   \<and> disk (prepareLocked sampleEnv sampleState) = [''/cache/torrent-stream'']
   \<and> \<not> holdsHandle (prepareLocked sampleEnv sampleState) 1
   \<and> snd (prepareStream (Some ''magnet:?xt=urn:btih:def'') sampleEnv None None sampleState)
       = Resolved \<lparr>resultStreamId = ''s2'', playbackUrl = ''http://127.0.0.1:8080/torrent/s2'',
          resultInfoHash = ''def'', resultFileName = ''Movie.MKV'', resultFileSize = 250,
          resultMimeType = ''video/x-matroska''\<rparr>
   \<and> (\<exists>x. activeStreams
             (fst (prepareStream (Some ''magnet:?xt=urn:btih:def'') sampleEnv None None
                     sampleState))
             = [(''s2'', x)])
   \<and> length (activeStreams
         (run [PrepareStream (Some ''magnet:?xt=urn:btih:def'') sampleEnv None None,
               StopStream ''s1''] sampleState)) \<le> 1"
proof -
  let ?R = "\<lparr>resultStreamId = ''s2'', playbackUrl = ''http://127.0.0.1:8080/torrent/s2'',
          resultInfoHash = ''def'', resultFileName = ''Movie.MKV'', resultFileSize = 250,
          resultMimeType = ''video/x-matroska''\<rparr>"
  let ?ops = "[PrepareStream (Some ''magnet:?xt=urn:btih:def'') sampleEnv None None,
               StopStream ''s1'']"
  note t = prepareStream_single_active_stream [OF sample_magnet, where env = sampleEnv
      and st = sampleState and p = None and n = None and result = ?R and ops = ?ops]
  have r: "snd (prepareStream (Some ''magnet:?xt=urn:btih:def'') sampleEnv None None sampleState)
             = Resolved ?R"
    using sample_magnet by (simp add: prepareStream_def sample_prepare)
  have a: "activeStreams sampleState = [(''s1'', sampleStream)]" by (simp add: sampleState_def)
  have b: "activeStreams (prepareLocked sampleEnv sampleState) = []" using t by blast
  have c: "disk (prepareLocked sampleEnv sampleState) = [''/cache/torrent-stream'']"
    by (simp add: sample_prepareLocked)
  have h: "\<not> holdsHandle (prepareLocked sampleEnv sampleState) 1"
    by (simp add: sample_prepareLocked holdsHandle_def)
  have "\<exists>x. activeStreams
             (fst (prepareStream (Some ''magnet:?xt=urn:btih:def'') sampleEnv None None
                     sampleState))
             = [(resultStreamId ?R, x)]"
    using t r by blast
  then have d: "\<exists>x. activeStreams
             (fst (prepareStream (Some ''magnet:?xt=urn:btih:def'') sampleEnv None None
                     sampleState))
             = [(''s2'', x)]"
    by simp
  have "length (activeStreams sampleState) \<le> 1" using a by simp
  then have e: "length (activeStreams (run ?ops sampleState)) \<le> 1" using t by blast
  show ?thesis using a b c h r d e by blast
qed

text \<open>
  A call of \<open>prepareStream\<close> with a blank or missing magnet link, while the sample stream
  is active, is rejected at once: nothing is stopped and the stream stays registered.
\<close>

theorem prepareStream_blank_magnet_counterexample:
  "activeStreams sampleState = [(''s1'', sampleStream)]
   \<and> prepareStream (Some ''  '') sampleEnv None None sampleState
       = (sampleState, Rejected ''TORRENT_INVALID_INPUT'')
   \<and> prepareStream None sampleEnv None None sampleState
       = (sampleState, Rejected ''TORRENT_INVALID_INPUT'')
   \<and> activeStreams (fst (prepareStream (Some ''  '') sampleEnv None None sampleState))
       = [(''s1'', sampleStream)]"
  by (simp add: prepareStream_def isBlank_def isWhitespace_def sampleState_def)

end
